theory Spec2Isabelle
  imports Complex_Main
begin

section \<open>JavaScript strings\<close>

text \<open>
  A string is the list of the bytes of its UTF-8 encoding, so that every JavaScript string
  without unpaired surrogates is represented. Equality, concatenation, prefix and substring
  tests read the same on the bytes as on the characters. The methods of
  \<^verbatim>\<open>String.prototype\<close> that the builder code calls are written out:
  \<^verbatim>\<open>startsWith\<close>, \<^verbatim>\<open>includes\<close>, \<^verbatim>\<open>trim\<close>, \<^verbatim>\<open>toLowerCase\<close> (exact on
  strings whose letters are ASCII, as the tag names it is applied to) and the global
  regular-expression match \<^verbatim>\<open>s.match(/pat/g)\<close> for a literal pattern.
\<close>

definition quot :: string where
  "quot = [CHR 0x22]"

fun startsWith :: "string \<Rightarrow> string \<Rightarrow> bool" where
  "startsWith s [] = True"
| "startsWith [] (p # ps) = False"
| "startsWith (c # s) (p # ps) = (c = p \<and> startsWith s ps)"

fun stringIncludes :: "string \<Rightarrow> string \<Rightarrow> bool" where
  "stringIncludes [] pat = (pat = [])"
| "stringIncludes (c # s) pat = (startsWith (c # s) pat \<or> stringIncludes s pat)"

text \<open>
  \<^verbatim>\<open>trim\<close> removes from both ends the code points that ECMAScript classes as
  \<^verbatim>\<open>WhiteSpace\<close> or \<^verbatim>\<open>LineTerminator\<close>: U+0009 to U+000D, U+0020, U+00A0,
  U+1680, U+2000 to U+200A, U+2028, U+2029, U+202F, U+205F, U+3000 and U+FEFF, listed here by
  their encodings. A trailing code point is recognised on the reversed string by its reversed
  encoding.
\<close>

definition whiteSpace :: "string list" where
  "whiteSpace =
     [[CHR 0x09], [CHR 0x0A], [CHR 0x0B], [CHR 0x0C], [CHR 0x0D], [CHR 0x20],
      [CHR 0xC2, CHR 0xA0],
      [CHR 0xE1, CHR 0x9A, CHR 0x80],
      [CHR 0xE2, CHR 0x80, CHR 0x80], [CHR 0xE2, CHR 0x80, CHR 0x81],
      [CHR 0xE2, CHR 0x80, CHR 0x82], [CHR 0xE2, CHR 0x80, CHR 0x83],
      [CHR 0xE2, CHR 0x80, CHR 0x84], [CHR 0xE2, CHR 0x80, CHR 0x85],
      [CHR 0xE2, CHR 0x80, CHR 0x86], [CHR 0xE2, CHR 0x80, CHR 0x87],
      [CHR 0xE2, CHR 0x80, CHR 0x88], [CHR 0xE2, CHR 0x80, CHR 0x89],
      [CHR 0xE2, CHR 0x80, CHR 0x8A],
      [CHR 0xE2, CHR 0x80, CHR 0xA8], [CHR 0xE2, CHR 0x80, CHR 0xA9],
      [CHR 0xE2, CHR 0x80, CHR 0xAF],
      [CHR 0xE2, CHR 0x81, CHR 0x9F],
      [CHR 0xE3, CHR 0x80, CHR 0x80],
      [CHR 0xEF, CHR 0xBB, CHR 0xBF]]"

function stripLeading :: "string list \<Rightarrow> string \<Rightarrow> string" where
  "stripLeading ws [] = []"
| "stripLeading ws (c # s) =
     (case find (\<lambda>w. w \<noteq> [] \<and> startsWith (c # s) w) ws of
        None \<Rightarrow> c # s
      | Some w \<Rightarrow> stripLeading ws (drop (length w) (c # s)))"
  by pat_completeness auto
termination
proof (relation "measure (\<lambda>(ws, s). length s)")
  show "wf (measure (\<lambda>(ws, s). length s))" by simp
next
  fix ws :: "string list" and c :: char and s w :: string
  assume "find (\<lambda>w. w \<noteq> [] \<and> startsWith (c # s) w) ws = Some w"
  then have "w \<noteq> []" by (auto simp: find_Some_iff)
  then show "((ws, drop (length w) (c # s)), (ws, c # s)) \<in> measure (\<lambda>(ws, s). length s)"
    by (cases w) auto
qed

definition trim :: "string \<Rightarrow> string" where
  "trim s = rev (stripLeading (map rev whiteSpace) (rev (stripLeading whiteSpace s)))"

text \<open>
  \<^verbatim>\<open>(s.match(/pat/g) || []).length\<close> for a literal, non-empty pattern: the matches are
  found from left to right and do not overlap (the search resumes after the end of a match).
\<close>

function matchCount :: "string \<Rightarrow> string \<Rightarrow> nat" where
  "matchCount pat [] = 0"
| "matchCount pat (c # s) =
     (if pat = [] then 0
      else if startsWith (c # s) pat then Suc (matchCount pat (drop (length pat) (c # s)))
      else matchCount pat s)"
  by pat_completeness auto
termination
  by (relation "measure (\<lambda>(pat, s). length s)") auto

text \<open>
  The plain count of a literal in a string is the number of positions at which it occurs.
  Two occurrences overlap when the later one starts before the earlier one ends.
\<close>

definition occurrencePositions :: "string \<Rightarrow> string \<Rightarrow> nat list" where
  "occurrencePositions pat s = filter (\<lambda>i. startsWith (drop i s) pat) [0..<length s]"

definition occurrences :: "string \<Rightarrow> string \<Rightarrow> nat" where
  "occurrences pat s = length (occurrencePositions pat s)"

definition overlapFree :: "string \<Rightarrow> string \<Rightarrow> bool" where
  "overlapFree pat s =
     (\<forall>i \<in> set (occurrencePositions pat s). \<forall>j \<in> set (occurrencePositions pat s).
        i < j \<longrightarrow> i + length pat \<le> j)"

text \<open>
  A list of positions picks occurrences without overlap when every position is one at which
  the literal occurs and each position lies at least the length of the literal after the
  one before it.
\<close>

fun separated :: "nat \<Rightarrow> nat list \<Rightarrow> bool" where
  "separated n [] = True"
| "separated n [p] = True"
| "separated n (p # q # ps) = (p + n \<le> q \<and> separated n (q # ps))"

definition nonOverlapping :: "string \<Rightarrow> string \<Rightarrow> nat list \<Rightarrow> bool" where
  "nonOverlapping pat s ps =
     (set ps \<subseteq> set (occurrencePositions pat s) \<and> separated (length pat) ps)"

definition upperLetters :: string where
  "upperLetters = ''ABCDEFGHIJKLMNOPQRSTUVWXYZ''"

definition lowerLetters :: string where
  "lowerLetters = ''abcdefghijklmnopqrstuvwxyz''"

definition toLowerCase :: "string \<Rightarrow> string" where
  "toLowerCase s =
     map (\<lambda>c. case map_of (zip upperLetters lowerLetters) c of Some d \<Rightarrow> d | None \<Rightarrow> c) s"

section \<open>The document tree\<close>

text \<open>
  A node is a text node, a comment or an element with its tag name (upper case, as
  \<^verbatim>\<open>element.tagName\<close> reports it), its attributes other than \<^verbatim>\<open>style\<close> in
  insertion order, its inline style declarations (\<^verbatim>\<open>element.style\<close>) and its child
  nodes. An element reference held by the code is the path of child indices that leads to
  the element from the container, together with the element found there.
\<close>

datatype node =
    Text string
  | Elem string "(string \<times> string) list" "(string \<times> string) list" "node list"
  | Comment string

type_synonym path = "nat list"

fun childNodes :: "node \<Rightarrow> node list" where
  "childNodes (Text s) = []"
| "childNodes (Elem t a s ks) = ks"
| "childNodes (Comment s) = []"

fun tagName :: "node \<Rightarrow> string" where
  "tagName (Text s) = []"
| "tagName (Elem t a s ks) = t"
| "tagName (Comment s) = []"

fun attributes :: "node \<Rightarrow> (string \<times> string) list" where
  "attributes (Text s) = []"
| "attributes (Elem t a s ks) = a"
| "attributes (Comment s) = []"

fun isElement :: "node \<Rightarrow> bool" where
  "isElement (Text s) = False"
| "isElement (Elem t a s ks) = True"
| "isElement (Comment s) = False"

fun getAttribute :: "node \<Rightarrow> string \<Rightarrow> string option" where
  "getAttribute (Text s) name = None"
| "getAttribute (Elem t a s ks) name = map_of a name"
| "getAttribute (Comment s) name = None"

definition hasAttribute :: "node \<Rightarrow> string \<Rightarrow> bool" where
  "hasAttribute n name = (getAttribute n name \<noteq> None)"

fun putEntry :: "string \<Rightarrow> string \<Rightarrow> (string \<times> string) list \<Rightarrow> (string \<times> string) list" where
  "putEntry k v [] = [(k, v)]"
| "putEntry k v ((k', v') # kvs) = (if k' = k then (k, v) # kvs else (k', v') # putEntry k v kvs)"

fun setAttribute :: "string \<Rightarrow> string \<Rightarrow> node \<Rightarrow> node" where
  "setAttribute name v (Text s) = Text s"
| "setAttribute name v (Elem t a s ks) = Elem t (putEntry name v a) s ks"
| "setAttribute name v (Comment s) = Comment s"

text \<open>
  \<^verbatim>\<open>element.style.prop\<close> reads as the empty string when the property is not set;
  assigning a non-empty value sets it, \<^verbatim>\<open>removeProperty\<close> deletes it. Property names
  are kept as the code writes them (shorthands are not expanded). A value that comes from
  parsed markup stands for the text that \<^verbatim>\<open>element.style\<close> reports for it; a value
  that the code assigns is kept as the code writes it.
\<close>

fun getStyle :: "node \<Rightarrow> string \<Rightarrow> string" where
  "getStyle (Text s) prop = []"
| "getStyle (Elem t a s ks) prop = (case map_of s prop of Some v \<Rightarrow> v | None \<Rightarrow> [])"
| "getStyle (Comment s) prop = []"

fun removeProperty :: "string \<Rightarrow> node \<Rightarrow> node" where
  "removeProperty prop (Text s) = Text s"
| "removeProperty prop (Elem t a s ks) = Elem t a (filter (\<lambda>kv. fst kv \<noteq> prop) s) ks"
| "removeProperty prop (Comment s) = Comment s"

fun setStyle :: "string \<Rightarrow> string \<Rightarrow> node \<Rightarrow> node" where
  "setStyle prop v (Text s) = Text s"
| "setStyle prop v (Elem t a s ks) =
     (if v = [] then Elem t a (filter (\<lambda>kv. fst kv \<noteq> prop) s) ks
      else Elem t a (putEntry prop v s) ks)"
| "setStyle prop v (Comment s) = Comment s"

subsection \<open>Selectors and queries\<close>

datatype selector =
    HasAttr string
  | AttrEq string string
  | HasClass string
  | TagIn "string list"
  | AnyOf "selector list"

text \<open>
  The \<^verbatim>\<open>class\<close> attribute is split at ASCII white space, as the DOM standard defines
  it for \<^verbatim>\<open>classList\<close> and class selectors.
\<close>

definition isAsciiWhitespace :: "char \<Rightarrow> bool" where
  "isAsciiWhitespace c = (c \<in> set [CHR 0x09, CHR 0x0A, CHR 0x0C, CHR 0x0D, CHR 0x20])"

fun splitWs :: "string \<Rightarrow> string \<Rightarrow> string list" where
  "splitWs acc [] = (if acc = [] then [] else [acc])"
| "splitWs acc (c # cs) =
     (if isAsciiWhitespace c then (if acc = [] then splitWs [] cs else acc # splitWs [] cs)
      else splitWs (acc @ [c]) cs)"

definition classList :: "node \<Rightarrow> string list" where
  "classList n = (case getAttribute n ''class'' of None \<Rightarrow> [] | Some v \<Rightarrow> splitWs [] v)"

fun matches :: "selector \<Rightarrow> node \<Rightarrow> bool" where
  "matches sel (Text s) = False"
| "matches (HasAttr name) (Elem t a s ks) = (map_of a name \<noteq> None)"
| "matches (AttrEq name v) (Elem t a s ks) = (map_of a name = Some v)"
| "matches (HasClass c) (Elem t a s ks) = (c \<in> set (classList (Elem t a s ks)))"
| "matches (TagIn ts) (Elem t a s ks) = (toLowerCase t \<in> set ts)"
| "matches (AnyOf sels) (Elem t a s ks) = (\<exists>sel \<in> set sels. matches sel (Elem t a s ks))"
| "matches sel (Comment s) = False"

text \<open>All descendant elements of a list of sibling nodes, in document order, with their paths.\<close>

fun walkFrom :: "nat \<Rightarrow> node list \<Rightarrow> (path \<times> node) list" where
  "walkFrom i [] = []"
| "walkFrom i (Text s # ns) = walkFrom (Suc i) ns"
| "walkFrom i (Elem t a s ks # ns) =
     ([i], Elem t a s ks) # map (\<lambda>(p, n). (i # p, n)) (walkFrom 0 ks) @ walkFrom (Suc i) ns"
| "walkFrom i (Comment s # ns) = walkFrom (Suc i) ns"

definition querySelectorAll :: "selector \<Rightarrow> node list \<Rightarrow> (path \<times> node) list" where
  "querySelectorAll sel ns = filter (\<lambda>pn. matches sel (snd pn)) (walkFrom 0 ns)"

definition querySelector :: "selector \<Rightarrow> node list \<Rightarrow> (path \<times> node) option" where
  "querySelector sel ns = (case querySelectorAll sel ns of [] \<Rightarrow> None | pn # _ \<Rightarrow> Some pn)"

fun textContent :: "node list \<Rightarrow> string" where
  "textContent [] = []"
| "textContent (Text s # ns) = s @ textContent ns"
| "textContent (Elem t a s ks # ns) = textContent ks @ textContent ns"
| "textContent (Comment s # ns) = textContent ns"

fun firstElementChild :: "node list \<Rightarrow> node option" where
  "firstElementChild [] = None"
| "firstElementChild (Text s # ns) = firstElementChild ns"
| "firstElementChild (Elem t a s ks # ns) = Some (Elem t a s ks)"
| "firstElementChild (Comment s # ns) = firstElementChild ns"

text \<open>The descendant elements alone, in document order.\<close>

fun descendants :: "node list \<Rightarrow> node list" where
  "descendants [] = []"
| "descendants (Text x # ns) = descendants ns"
| "descendants (Elem t a s ks # ns) = Elem t a s ks # descendants ks @ descendants ns"
| "descendants (Comment x # ns) = descendants ns"

fun inlineStyle :: "node \<Rightarrow> (string \<times> string) list" where
  "inlineStyle (Text x) = []"
| "inlineStyle (Elem t a s ks) = s"
| "inlineStyle (Comment x) = []"

subsection \<open>Serialisation\<close>

text \<open>
  \<^verbatim>\<open>innerHTML\<close> and \<^verbatim>\<open>outerHTML\<close> follow the HTML fragment serialisation
  algorithm: the tag name in lower case, every attribute as \<^verbatim>\<open>name="value"\<close> with
  the value escaped, the children and the end tag unless the element is void; text is
  escaped except inside raw-text elements (the ampersand, the no-break space, the
  quotation mark in attribute values, the angle brackets in text); a comment is written between \<^verbatim>\<open><!--\<close> and
  \<^verbatim>\<open>-->\<close>. The inline style is written as the \<^verbatim>\<open>style\<close> attribute after the
  other attributes.
\<close>

definition voidElements :: "string list" where
  "voidElements = [''area'', ''base'', ''br'', ''col'', ''embed'', ''hr'', ''img'', ''input'',
     ''link'', ''meta'', ''source'', ''track'', ''wbr'']"

definition rawTextElements :: "string list" where
  "rawTextElements = [''style'', ''script'', ''xmp'', ''iframe'', ''noembed'', ''noframes'',
     ''plaintext'']"

fun escapeText :: "string \<Rightarrow> string" where
  "escapeText [] = []"
| "escapeText [c] =
     (if c = CHR ''&'' then ''&amp;'' else if c = CHR ''<'' then ''&lt;''
      else if c = CHR ''>'' then ''&gt;'' else [c])"
| "escapeText (c # d # cs) =
     (if c = CHR 0xC2 \<and> d = CHR 0xA0 then ''&nbsp;'' @ escapeText cs
      else (if c = CHR ''&'' then ''&amp;'' else if c = CHR ''<'' then ''&lt;''
            else if c = CHR ''>'' then ''&gt;'' else [c]) @ escapeText (d # cs))"

fun escapeAttr :: "string \<Rightarrow> string" where
  "escapeAttr [] = []"
| "escapeAttr [c] =
     (if c = CHR ''&'' then ''&amp;'' else if c = CHR 0x22 then ''&quot;'' else [c])"
| "escapeAttr (c # d # cs) =
     (if c = CHR 0xC2 \<and> d = CHR 0xA0 then ''&nbsp;'' @ escapeAttr cs
      else (if c = CHR ''&'' then ''&amp;'' else if c = CHR 0x22 then ''&quot;'' else [c])
           @ escapeAttr (d # cs))"

fun cssText :: "(string \<times> string) list \<Rightarrow> string" where
  "cssText [] = []"
| "cssText [(k, v)] = k @ '': '' @ v @ '';''"
| "cssText ((k, v) # kvs) = k @ '': '' @ v @ ''; '' @ cssText kvs"

fun serializeAttrs :: "(string \<times> string) list \<Rightarrow> string" where
  "serializeAttrs [] = []"
| "serializeAttrs ((k, v) # kvs) = '' '' @ k @ ''='' @ quot @ escapeAttr v @ quot @ serializeAttrs kvs"

definition startTag :: "string \<Rightarrow> (string \<times> string) list \<Rightarrow> (string \<times> string) list \<Rightarrow> string" where
  "startTag t a s =
     ''<'' @ toLowerCase t @ serializeAttrs a
     @ (if s = [] then [] else serializeAttrs [(''style'', cssText s)]) @ ''>''"

fun serializeNodes :: "bool \<Rightarrow> node list \<Rightarrow> string" where
  "serializeNodes raw [] = []"
| "serializeNodes raw (Text s # ns) = (if raw then s else escapeText s) @ serializeNodes raw ns"
| "serializeNodes raw (Elem t a s ks # ns) =
     startTag t a s
     @ (if toLowerCase t \<in> set voidElements then []
        else serializeNodes (toLowerCase t \<in> set rawTextElements) ks
             @ ''</'' @ toLowerCase t @ ''>'')
     @ serializeNodes raw ns"
| "serializeNodes raw (Comment s # ns) = ''<!--'' @ s @ ''-->'' @ serializeNodes raw ns"

definition innerHTML :: "node list \<Rightarrow> string" where
  "innerHTML ks = serializeNodes False ks"

definition outerHTML :: "node \<Rightarrow> string" where
  "outerHTML n = serializeNodes False [n]"

section \<open>The browser\<close>

text \<open>
  What the code takes from its host is a parameter of the model: the HTML parser behind the
  \<^verbatim>\<open>innerHTML\<close> setter, and the clock and the random generator that
  \<^verbatim>\<open>generateElementId\<close> reads (\<open>dateNow pf k\<close> and \<open>mathRandom pf k\<close> are the
  decimal timestamp and the base-36 suffix of the \<open>k\<close>-th generated identifier), the
  layout (\<open>getBoundingClientRect pf p\<close> is the top and the height of the rectangle of the
  element at path \<open>p\<close> when the code measures it) and \<^verbatim>\<open>JSON.parse\<close> for an
  object literal (\<open>None\<close> when it throws; a property value is a string, or another value
  given by its truthiness and its conversion to a string).

  A number is the rational that a finite double denotes. Sums, differences and quotients of
  doubles are rounded by the engine, so they are taken from the host as well
  (\<open>plus64\<close>, \<open>minus64\<close>, \<open>divide64\<close>); comparison and the absolute value are exact.

  \<open>parseSelector pf s\<close> is what the selector parser behind \<^verbatim>\<open>querySelector\<close> makes
  of the selector string \<open>s\<close>: \<open>None\<close> when it rejects the string with a
  \<^verbatim>\<open>SyntaxError\<close>. The model consults it only for strings whose reading is not fixed
  below.
\<close>

datatype jsvalue = JString string | JOther bool string

record platform =
  parseHTML :: "string \<Rightarrow> node list"
  dateNow :: "nat \<Rightarrow> string"
  mathRandom :: "nat \<Rightarrow> string"
  getBoundingClientRect :: "path \<Rightarrow> rat \<times> rat"
  jsonParse :: "string \<Rightarrow> (string \<times> jsvalue) list option"
  plus64 :: "rat \<Rightarrow> rat \<Rightarrow> rat"
  minus64 :: "rat \<Rightarrow> rat \<Rightarrow> rat"
  divide64 :: "rat \<Rightarrow> rat \<Rightarrow> rat"
  parseSelector :: "string \<Rightarrow> selector option"

text \<open>
  An operation either returns a value or throws; the state it leaves behind is given in
  both cases, since what was written before the exception stays written.
\<close>

datatype 'a completion = Returns 'a | Throws string

text \<open>
  The code finds an element by its identifier with
  \<^verbatim>\<open>querySelector(`[data-element-id="${elementId}"]`)\<close>: the identifier is placed
  between the quotation marks as it is. The selector grammar reads the text up to the next
  quotation mark as the attribute value, with the backslash as escape character; a line
  break inside it is an error, and a null character is replaced before parsing. So for an
  identifier without any of these characters the selector tests the attribute for equality
  with the identifier; for any other identifier the outcome is that of the host's selector
  parser on the resulting string, which may reject it or read another selector.
\<close>

definition plainIdentifier :: "string \<Rightarrow> bool" where
  "plainIdentifier elementId =
     (\<forall>c \<in> set elementId.
        c \<notin> set [CHR 0x22, CHR 0x5C, CHR 0x0A, CHR 0x0C, CHR 0x0D, CHR 0x00])"

definition idSelectorString :: "string \<Rightarrow> string" where
  "idSelectorString elementId = ''[data-element-id='' @ quot @ elementId @ quot @ '']''"

definition idSelector :: "platform \<Rightarrow> string \<Rightarrow> selector option" where
  "idSelector pf elementId =
     (if plainIdentifier elementId then Some (AttrEq ''data-element-id'' elementId)
      else parseSelector pf (idSelectorString elementId))"

definition querySelectorById ::
  "platform \<Rightarrow> string \<Rightarrow> node list \<Rightarrow> (path \<times> node) option completion" where
  "querySelectorById pf elementId c =
     (case idSelector pf elementId of
        None \<Rightarrow> Throws ''SyntaxError''
      | Some sel \<Rightarrow> Returns (querySelector sel c))"

section \<open>Builder utilities\<close>

definition generateElementId :: "platform \<Rightarrow> nat \<Rightarrow> string \<Rightarrow> string option \<Rightarrow> string" where
  "generateElementId pf k prefix tagNameOpt =
     (let timestamp = dateNow pf k;
          random = mathRandom pf k;
          tag = (case tagNameOpt of
                   None \<Rightarrow> []
                 | Some t \<Rightarrow> if t = [] then [] else ''-'' @ toLowerCase t)
      in prefix @ tag @ ''-'' @ timestamp @ ''-'' @ random)"

definition hasBuilderElements :: "string \<Rightarrow> bool" where
  "hasBuilderElements content = stringIncludes content ''data-element-id''"

text \<open>
  \<^verbatim>\<open>applyBuilderStyling\<close>. The computed colour is only consulted when the inline
  colour is empty, and then the first disjunct of the test already holds, so the computed
  style does not influence the result.
\<close>

definition applyBuilderStyling :: "node \<Rightarrow> bool \<Rightarrow> node" where
  "applyBuilderStyling element isImported =
     (let e1 = setStyle ''cursor'' ''pointer'' element;
          e2 = setStyle ''min-height'' ''20px'' e1;
          e3 = setStyle ''position'' ''relative'' e2;
          currentColor = getStyle e3 ''color'';
          e4 = (if getStyle e3 ''color'' = [] \<or> currentColor = ''gray''
                   \<or> currentColor = ''rgb(128, 128, 128)'' \<or> currentColor = ''#808080''
                then setStyle ''color'' ''#1f2937'' e3 else e3);
          e5 = (if getStyle e4 ''opacity'' \<noteq> [] \<and> getStyle e4 ''opacity'' \<noteq> ''1''
                then setStyle ''opacity'' ''1'' e4 else e4)
      in if isImported then
           (let e6 = setStyle ''padding''
                       (if getStyle e5 ''padding'' \<noteq> [] then getStyle e5 ''padding'' else ''10px'') e5;
                e7 = setStyle ''margin''
                       (if getStyle e6 ''margin'' \<noteq> [] then getStyle e6 ''margin'' else ''10px 0'') e6;
                e8 = setStyle ''border''
                       (if getStyle e7 ''border'' \<noteq> [] then getStyle e7 ''border''
                        else ''1px dashed transparent'') e7
            in setStyle ''border-radius'' ''4px'' e8)
         else e5)"

definition skippedTags :: "string list" where
  "skippedTags = [''SCRIPT'', ''STYLE'', ''META'', ''LINK'', ''TITLE'', ''BR'']"

text \<open>
  \<^verbatim>\<open>processElementForBuilder\<close>, applied by \<^verbatim>\<open>forEach\<close> to the element children
  of a node. The counter is the number of identifiers generated so far; it is returned
  advanced.
\<close>

fun processElementForBuilder :: "platform \<Rightarrow> nat \<Rightarrow> node \<Rightarrow> node \<times> nat"
  and forEachChild :: "platform \<Rightarrow> nat \<Rightarrow> node list \<Rightarrow> node list \<times> nat" where
  "processElementForBuilder pf k (Text s) = (Text s, k)"
| "processElementForBuilder pf k (Elem t a s ks) =
     (if t \<in> set skippedTags then (Elem t a s ks, k)
      else if (case map_of a ''data-element-id'' of None \<Rightarrow> False | Some v \<Rightarrow> v \<noteq> [])
           then (Elem t a s ks, k)
      else (let uniqueId = generateElementId pf k ''imported'' (Some t);
                tagged = applyBuilderStyling (setAttribute ''data-element-id'' uniqueId (Elem t a s ks)) True;
                (ks', k') = forEachChild pf (Suc k) ks
            in (case tagged of
                  Elem t' a' s' _ \<Rightarrow> (Elem t' a' s' ks', k')
                | other \<Rightarrow> (other, k'))))"
| "processElementForBuilder pf k (Comment s) = (Comment s, k)"
| "forEachChild pf k [] = ([], k)"
| "forEachChild pf k (n # ns) =
     (let (n', k') = processElementForBuilder pf k n;
          (ns', k'') = forEachChild pf k' ns
      in (n' # ns', k''))"

record ProcessedContent =
  html :: string
  wasAlreadyProcessed :: bool
  elementCount :: nat

definition placeholderHtml :: string where
  "placeholderHtml =
     ''<div style='' @ quot
     @ ''padding: 40px; text-align: center; color: #6b7280; font-style: italic;'' @ quot
     @ ''>Start building your layout by dragging elements from the sidebar</div>''"

definition blockTags :: "string list" where
  "blockTags = [''div'', ''p'', ''h1'', ''h2'', ''h3'', ''h4'', ''h5'', ''h6'', ''ul'', ''ol'',
     ''li'', ''blockquote'', ''table'', ''figure'']"

definition processContentForBuilder :: "platform \<Rightarrow> nat \<Rightarrow> string \<Rightarrow> ProcessedContent" where
  "processContentForBuilder pf k content =
     (if trim content = [] then
        \<lparr>html = placeholderHtml, wasAlreadyProcessed = False, elementCount = 0\<rparr>
      else if hasBuilderElements content then
        \<lparr>html = content, wasAlreadyProcessed = True,
         elementCount = matchCount ''data-element-id'' content\<rparr>
      else
        (let tempDiv = parseHTML pf content;
             hasOnlyTextAndInlineElements = (querySelector (TagIn blockTags) tempDiv = None);
             hasContent = (0 < length (textContent tempDiv) \<or> stringIncludes (innerHTML tempDiv) ''<'')
         in if hasOnlyTextAndInlineElements \<and> hasContent then
              (let wrapper = Elem ''DIV'' [] [] (parseHTML pf content);
                   wrapper1 = setAttribute ''data-element-id''
                                (generateElementId pf k ''imported-content'' None) wrapper;
                   wrapper2 = applyBuilderStyling wrapper1 True
               in \<lparr>html = outerHTML wrapper2, wasAlreadyProcessed = False, elementCount = 1\<rparr>)
            else
              (let processed = fst (forEachChild pf k tempDiv)
               in \<lparr>html = innerHTML processed, wasAlreadyProcessed = False,
                   elementCount = length (querySelectorAll (HasAttr ''data-element-id'') processed)\<rparr>)))"

subsection \<open>Selection styling\<close>

text \<open>
  \<^verbatim>\<open>querySelectorAll(sel).forEach(n => n.remove())\<close>: every descendant that matches is
  taken out of the tree, with its subtree.
\<close>

fun removeMatching :: "selector \<Rightarrow> node list \<Rightarrow> node list" where
  "removeMatching sel [] = []"
| "removeMatching sel (Text x # ns) = Text x # removeMatching sel ns"
| "removeMatching sel (Elem t a s ks # ns) =
     (if matches sel (Elem t a s ks) then removeMatching sel ns
      else Elem t a s (removeMatching sel ks) # removeMatching sel ns)"
| "removeMatching sel (Comment x # ns) = Comment x # removeMatching sel ns"

fun appendChildren :: "node \<Rightarrow> node list \<Rightarrow> node" where
  "appendChildren (Text x) new = Text x"
| "appendChildren (Elem t a s ks) new = Elem t a s (ks @ new)"
| "appendChildren (Comment x) new = Comment x"

fun removeImageResizeHandles :: "node \<Rightarrow> node" where
  "removeImageResizeHandles (Text x) = Text x"
| "removeImageResizeHandles (Elem t a s ks) =
     Elem t a s (removeMatching (HasClass ''image-resize-handle'') ks)"
| "removeImageResizeHandles (Comment x) = Comment x"

text \<open>
  One resize handle: a \<^verbatim>\<open>div\<close> with the class, the \<^verbatim>\<open>data-handle\<close> attribute and
  the declarations of the \<^verbatim>\<open>cssText\<close> template; \<open>edges\<close> are those of
  \<^verbatim>\<open>top\<close>, \<^verbatim>\<open>bottom\<close>, \<^verbatim>\<open>left\<close>, \<^verbatim>\<open>right\<close> that the handle defines, in
  this order. The \<^verbatim>\<open>mousedown\<close> listener is not part of the tree.
\<close>

definition resizeHandle :: "string \<Rightarrow> string \<Rightarrow> (string \<times> string) list \<Rightarrow> node" where
  "resizeHandle position cursor edges =
     Elem ''DIV'' [(''class'', ''image-resize-handle''), (''data-handle'', position)]
       ([(''position'', ''absolute''), (''width'', ''12px''), (''height'', ''12px''),
         (''background-color'', ''#f97316''), (''border'', ''2px solid white''),
         (''border-radius'', ''50%''), (''cursor'', cursor), (''z-index'', ''1000''),
         (''box-shadow'', ''0 2px 4px rgba(0,0,0,0.3)''), (''pointer-events'', ''auto'')] @ edges)
       []"

definition resizeHandles :: "node list" where
  "resizeHandles =
     [resizeHandle ''nw'' ''nw-resize'' [(''top'', ''-6px''), (''left'', ''-6px'')],
      resizeHandle ''ne'' ''ne-resize'' [(''top'', ''-6px''), (''right'', ''-6px'')],
      resizeHandle ''sw'' ''sw-resize'' [(''bottom'', ''-6px''), (''left'', ''-6px'')],
      resizeHandle ''se'' ''se-resize'' [(''bottom'', ''-6px''), (''right'', ''-6px'')]]"

definition addImageResizeHandles :: "node \<Rightarrow> node" where
  "addImageResizeHandles element =
     (let e1 = removeImageResizeHandles element;
          originalPosition = getStyle e1 ''position'';
          e2 = (if originalPosition = [] \<or> originalPosition = ''static''
                then setStyle ''position'' ''relative'' e1 else e1)
      in appendChildren e2 resizeHandles)"

definition isImage :: "node \<Rightarrow> bool" where
  "isImage element =
     (tagName element = ''IMG'' \<or> querySelector (TagIn [''img'']) (childNodes element) \<noteq> None)"

definition applySelectionStyling :: "node \<Rightarrow> node" where
  "applySelectionStyling element =
     (let e1 = setStyle ''outline'' ''2px solid #f97316'' element;
          e2 = setStyle ''outline-offset'' ''2px'' e1;
          e3 = setStyle ''box-shadow'' ''0 0 0 4px rgba(249, 115, 22, 0.1)'' e2
      in if isImage e3 then addImageResizeHandles e3 else e3)"

definition removeSelectionStyling :: "node \<Rightarrow> node" where
  "removeSelectionStyling element =
     (let e1 = setStyle ''outline'' ''none'' element;
          e2 = setStyle ''box-shadow'' ''none'' e1;
          e3 = setStyle ''outline-offset'' ''0px'' e2
      in if isImage e3 then removeImageResizeHandles e3 else e3)"

lemma size_removeMatching: "size_list size (removeMatching sel ns) \<le> size_list size ns"
  by (induction sel ns rule: removeMatching.induct) auto

lemma childNodes_setStyle: "childNodes (setStyle p v n) = childNodes n"
  by (cases n) auto

lemma size_removeSelectionStyling:
  "size_list size (childNodes (removeSelectionStyling n)) \<le> size_list size (childNodes n)"
proof (cases n)
  case (Text x)
  then show ?thesis by (simp add: removeSelectionStyling_def Let_def)
next
  case (Comment x)
  then show ?thesis by (simp add: removeSelectionStyling_def Let_def)
next
  case (Elem t a s ks)
  let ?e3 = "setStyle ''outline-offset'' ''0px''
      (setStyle ''box-shadow'' ''none'' (setStyle ''outline'' ''none'' n))"
  have k: "childNodes ?e3 = ks" using Elem by (simp add: childNodes_setStyle)
  then obtain t' a' s' where e3: "?e3 = Elem t' a' s' ks" using Elem by (cases ?e3) auto
  show ?thesis
    using Elem e3 size_removeMatching[of "HasClass ''image-resize-handle''" ks]
    by (simp add: removeSelectionStyling_def Let_def)
qed

text \<open>
  \<^verbatim>\<open>clearAllSelections\<close>: \<^verbatim>\<open>removeSelectionStyling\<close> for every tagged descendant
  of the container, in document order, so that an element is restyled (and, when it bears
  an image, loses the handles below it) before its descendants are visited.
\<close>

function clearAllSelections :: "node list \<Rightarrow> node list" where
  "clearAllSelections [] = []"
| "clearAllSelections (Text x # ns) = Text x # clearAllSelections ns"
| "clearAllSelections (Elem t a s ks # ns) =
     (if matches (HasAttr ''data-element-id'') (Elem t a s ks)
      then (case removeSelectionStyling (Elem t a s ks) of
              Elem t' a' s' ks' \<Rightarrow> Elem t' a' s' (clearAllSelections ks')
            | other \<Rightarrow> other)
      else Elem t a s (clearAllSelections ks))
     # clearAllSelections ns"
| "clearAllSelections (Comment x # ns) = Comment x # clearAllSelections ns"
  by pat_completeness auto
termination
proof (relation "measure (size_list size)")
  show "wf (measure (size_list size))" by simp
next
  fix x ns
  show "(ns, Text x # ns) \<in> measure (size_list size)" by simp
next
  fix t a s ks ns x2 x22 x23 x24
  assume "removeSelectionStyling (Elem t a s ks) = Elem x2 x22 x23 x24"
  then have "size_list size x24 \<le> size_list size ks"
    using size_removeSelectionStyling[of "Elem t a s ks"] by simp
  then show "(x24, Elem t a s ks # ns) \<in> measure (size_list size)" by simp
next
  fix t a s ks ns
  show "(ks, Elem t a s ks # ns) \<in> measure (size_list size)" by simp
next
  fix t a s ks ns
  show "(ns, Elem t a s ks # ns) \<in> measure (size_list size)" by simp
next
  fix x ns
  show "(ns, Comment x # ns) \<in> measure (size_list size)" by simp
qed

text \<open>A write to the element a reference designates.\<close>

fun updateAt :: "path \<Rightarrow> (node \<Rightarrow> node) \<Rightarrow> node list \<Rightarrow> node list" where
  "updateAt [] f ns = ns"
| "updateAt (i # p) f [] = []"
| "updateAt (i # p) f (n # ns) =
     (if i = 0 then
        (if p = [] then f n
         else (case n of Elem t a s ks \<Rightarrow> Elem t a s (updateAt p f ks) | other \<Rightarrow> other)) # ns
      else n # updateAt ((i - 1) # p) f ns)"

section \<open>The selection hook\<close>

record ElementSelection =
  selectedElementId :: "string option"
  selectedElement :: "path option"

definition getSelectedElement ::
  "platform \<Rightarrow> node list option \<Rightarrow> ElementSelection \<Rightarrow> (path \<times> node) option completion" where
  "getSelectedElement pf contentRef sel =
     (case (selectedElementId sel, contentRef) of
        (Some i, Some c) \<Rightarrow>
          if i = [] then Returns None else querySelectorById pf i c
      | _ \<Rightarrow> Returns None)"

definition clearAllVisualSelections :: "node list option \<Rightarrow> node list option" where
  "clearAllVisualSelections contentRef =
     (case contentRef of None \<Rightarrow> None | Some c \<Rightarrow> Some (clearAllSelections c))"

text \<open>
  \<^verbatim>\<open>selectElement\<close> acts on the container and, by its last statement, replaces the
  selection state. When the lookup throws, the container has been swept and the state is
  the one before the call.
\<close>

definition selectElement ::
  "platform \<Rightarrow> string option \<Rightarrow> node list option \<Rightarrow> ElementSelection
     \<Rightarrow> unit completion \<times> node list option \<times> ElementSelection" where
  "selectElement pf elementId contentRef selection =
     (let cleared = clearAllVisualSelections contentRef;
          newSelection = \<lparr>selectedElementId = elementId, selectedElement = None\<rparr>
      in case (elementId, cleared) of
           (Some i, Some c) \<Rightarrow>
             if i = [] then (Returns (), cleared, newSelection)
             else (case querySelectorById pf i c of
                     Throws x \<Rightarrow> (Throws x, cleared, selection)
                   | Returns (Some (p, element)) \<Rightarrow>
                       (Returns (), Some (updateAt p applySelectionStyling c),
                        newSelection\<lparr>selectedElement := Some p\<rparr>)
                   | Returns None \<Rightarrow> (Returns (), cleared, newSelection))
         | _ \<Rightarrow> (Returns (), cleared, newSelection))"

definition clearSelection ::
  "platform \<Rightarrow> node list option \<Rightarrow> ElementSelection
     \<Rightarrow> unit completion \<times> node list option \<times> ElementSelection" where
  "clearSelection pf contentRef selection = selectElement pf None contentRef selection"

definition noSelection :: ElementSelection where
  "noSelection = \<lparr>selectedElementId = None, selectedElement = None\<rparr>"

text \<open>
  An element carries selection styling when one of the three declarations that
  \<^verbatim>\<open>applySelectionStyling\<close> writes is present on it.
\<close>

definition selectionStyled :: "node \<Rightarrow> bool" where
  "selectionStyled n =
     (getStyle n ''outline'' = ''2px solid #f97316''
      \<or> getStyle n ''outline-offset'' = ''2px''
      \<or> getStyle n ''box-shadow'' = ''0 0 0 4px rgba(249, 115, 22, 0.1)'')"

text \<open>The tagged elements of a container that carry selection styling.\<close>

definition styledTagged :: "node \<Rightarrow> bool" where
  "styledTagged n = (matches (HasAttr ''data-element-id'') n \<and> selectionStyled n)"

definition styledElements :: "node list \<Rightarrow> node list" where
  "styledElements c =
     filter selectionStyled (map snd (querySelectorAll (HasAttr ''data-element-id'') c))"

section \<open>The drag and drop hook\<close>

record DragDropState =
  draggedElementType :: "string option"
  draggedElementId :: "string option"

record ElementLibraryItem =
  itemId :: string
  title :: string
  template :: string

text \<open>
  The calls of the callback properties are recorded in the order they are made; a callback
  handed to \<^verbatim>\<open>setTimeout\<close> is recorded as pending. The content container is the list of
  child nodes of the mounted element, or \<open>None\<close> while the reference is null.
\<close>

datatype callback = ContentUpdate string | RefreshListeners | ElementSelect string

datatype timer = RefreshThenSelect string | SelectLater string

record world =
  contentRef :: "node list option"
  dragState :: DragDropState
  calls :: "callback list"
  timers :: "timer list"

record DragEvent =
  clientY :: rat
  payload :: string

text \<open>
  \<^verbatim>\<open>querySelectorAll(sel).forEach(f)\<close> for an \<open>f\<close> that reads and writes only the
  element it is given (its own style): every matching descendant is replaced by its image.
\<close>

fun forEachMatching :: "selector \<Rightarrow> (node \<Rightarrow> node) \<Rightarrow> node list \<Rightarrow> node list" where
  "forEachMatching sel f [] = []"
| "forEachMatching sel f (Text x # ns) = Text x # forEachMatching sel f ns"
| "forEachMatching sel f (Elem t a s ks # ns) =
     (let e = Elem t a s (forEachMatching sel f ks)
      in (if matches sel e then f e else e) # forEachMatching sel f ns)"
| "forEachMatching sel f (Comment x # ns) = Comment x # forEachMatching sel f ns"

text \<open>
  \<^verbatim>\<open>saveCleanContent\<close>: the deep clone of the container with the three selection
  properties removed from every tagged element, and the call of \<^verbatim>\<open>onContentUpdate\<close> with
  its markup. The live container is not written.
\<close>

definition cleanedClone :: "node list \<Rightarrow> node list" where
  "cleanedClone container =
     (let tempContainer = container
      in forEachMatching (HasAttr ''data-element-id'')
           (\<lambda>el. removeProperty ''box-shadow''
                   (removeProperty ''outline-offset'' (removeProperty ''outline'' el)))
           tempContainer)"

definition saveCleanContent :: "world \<Rightarrow> world" where
  "saveCleanContent w =
     (case contentRef w of
        None \<Rightarrow> w
      | Some c \<Rightarrow>
          (let cleanContent = innerHTML (cleanedClone c)
           in w\<lparr>calls := calls w @ [ContentUpdate cleanContent]\<rparr>))"

text \<open>
  \<^verbatim>\<open>createNewElement\<close>. \<open>k\<close> is the number of identifiers generated before the call.
\<close>

definition createNewElement ::
  "platform \<Rightarrow> nat \<Rightarrow> ElementLibraryItem list \<Rightarrow> string \<Rightarrow> world \<Rightarrow> bool \<times> world" where
  "createNewElement pf k elementLibrary elementType w =
     (case (map_option template (find (\<lambda>el. itemId el = elementType) elementLibrary),
            contentRef w) of
        (Some tpl, Some c) \<Rightarrow>
          if tpl = [] then (False, w)
          else
            (let uniqueId = generateElementId pf k ''element'' None;
                 tempDiv = parseHTML pf tpl
             in case firstElementChild tempDiv of
                  None \<Rightarrow> (False, w)
                | Some first \<Rightarrow>
                    (let newElement = applyBuilderStyling
                           (setAttribute ''data-element-id'' uniqueId first) False;
                         existingElements = querySelectorAll (HasAttr ''data-element-id'') c;
                         c1 = (if length existingElements = 0
                                  \<or> stringIncludes (innerHTML c) ''Start Building Your Layout''
                               then [] else c);
                         c2 = c1 @ [newElement];
                         w1 = saveCleanContent (w\<lparr>contentRef := Some c2\<rparr>);
                         w2 = w1\<lparr>timers := timers w1 @ [RefreshThenSelect uniqueId]\<rparr>
                     in (True, w2)))
      | _ \<Rightarrow> (False, w))"

text \<open>
  \<^verbatim>\<open>findInsertPosition\<close>: one pass over the scanned elements, keeping the smallest
  distance seen so far (\<open>None\<close> is \<^verbatim>\<open>Infinity\<close>) and the insertion point chosen at
  the element that set it. The midpoint \<^verbatim>\<open>rect.top + rect.height / 2\<close> and the distance
  \<^verbatim>\<open>Math.abs(dropY - elementMiddle)\<close> are the values the engine computes.
\<close>

definition elementMiddle :: "platform \<Rightarrow> 'a \<times> rat \<times> rat \<Rightarrow> rat" where
  "elementMiddle pf r = plus64 pf (fst (snd r)) (divide64 pf (snd (snd r)) 2)"

definition distanceTo :: "platform \<Rightarrow> rat \<Rightarrow> 'a \<times> rat \<times> rat \<Rightarrow> rat" where
  "distanceTo pf dropY r = \<bar>minus64 pf dropY (elementMiddle pf r)\<bar>"

definition scanStep ::
  "platform \<Rightarrow> rat \<Rightarrow> 'a option \<times> rat option \<Rightarrow> 'a \<times> rat \<times> rat \<Rightarrow> 'a option \<times> rat option" where
  "scanStep pf dropY st el =
     (case (st, el) of
        ((insertBefore, minDistance), (element, rectTop, rectHeight)) \<Rightarrow>
          (let elementMiddle = plus64 pf rectTop (divide64 pf rectHeight 2);
               distance = \<bar>minus64 pf dropY elementMiddle\<bar>
           in if (case minDistance of None \<Rightarrow> True | Some m \<Rightarrow> distance < m)
              then ((if dropY < elementMiddle then Some element else None), Some distance)
              else (insertBefore, minDistance)))"

definition findInsertPositionIn :: "platform \<Rightarrow> rat \<Rightarrow> ('a \<times> rat \<times> rat) list \<Rightarrow> 'a option" where
  "findInsertPositionIn pf dropY rects = fst (foldl (scanStep pf dropY) (None, None) rects)"

text \<open>The insertion point the code derives from one element.\<close>

definition chosen :: "platform \<Rightarrow> rat \<Rightarrow> 'a \<times> rat \<times> rat \<Rightarrow> 'a option" where
  "chosen pf dropY r = (if dropY < elementMiddle pf r then Some (fst r) else None)"

definition findInsertPosition :: "platform \<Rightarrow> DragEvent \<Rightarrow> world \<Rightarrow> path option" where
  "findInsertPosition pf e w =
     (case contentRef w of
        None \<Rightarrow> None
      | Some c \<Rightarrow>
          (let allElements = querySelectorAll (HasAttr ''data-element-id'') c;
               dropY = clientY e
           in findInsertPositionIn pf dropY
                (map (\<lambda>pn. (fst pn, getBoundingClientRect pf (fst pn))) allElements)))"

text \<open>Sibling navigation and the structural writes of the DOM.\<close>

fun firstElementAt :: "nat \<Rightarrow> node list \<Rightarrow> nat option" where
  "firstElementAt k [] = None"
| "firstElementAt k (n # ns) = (if isElement n then Some k else firstElementAt (Suc k) ns)"

fun childrenAt :: "node list \<Rightarrow> path \<Rightarrow> node list" where
  "childrenAt ns [] = ns"
| "childrenAt ns (i # p) = (if i < length ns then childrenAt (childNodes (ns ! i)) p else [])"

definition nextElementSibling :: "node list \<Rightarrow> path \<Rightarrow> path option" where
  "nextElementSibling c p =
     (if p = [] then None
      else (let parent = butlast p; i = last p; siblings = childrenAt c parent
            in map_option (\<lambda>j. parent @ [j]) (firstElementAt (Suc i) (drop (Suc i) siblings))))"

fun removeAt :: "path \<Rightarrow> node list \<Rightarrow> node list" where
  "removeAt [] ns = ns"
| "removeAt (i # p) [] = []"
| "removeAt (i # p) (n # ns) =
     (if i = 0 then
        (if p = [] then ns
         else (case n of Elem t a s ks \<Rightarrow> Elem t a s (removeAt p ks) | other \<Rightarrow> other) # ns)
      else n # removeAt ((i - 1) # p) ns)"

definition insertAt :: "nat \<Rightarrow> node \<Rightarrow> node list \<Rightarrow> node list" where
  "insertAt j n ns = take j ns @ [n] @ drop j ns"

text \<open>
  \<^verbatim>\<open>container.insertBefore(element, ref)\<close> after \<^verbatim>\<open>element.remove()\<close>. The DOM
  standard makes \<^verbatim>\<open>insertBefore\<close> throw a \<^verbatim>\<open>NotFoundError\<close> unless the reference
  node is a child of the container at that moment. With \<open>p\<close> the path of the removed
  element and \<open>q\<close> the path of the reference node before the removal, the reference is
  still a child exactly when \<open>q\<close> has length one and is not \<open>p\<close> itself; removing an
  earlier sibling moves it one place to the left.
\<close>

definition childIndexAfterRemoval :: "path \<Rightarrow> path \<Rightarrow> nat option" where
  "childIndexAfterRemoval p q =
     (case q of
        [j] \<Rightarrow> (case p of
                  [i] \<Rightarrow> if i = j then None else if i < j then Some (j - 1) else Some j
                | _ \<Rightarrow> Some j)
      | _ \<Rightarrow> None)"

definition reorderElement ::
  "platform \<Rightarrow> string \<Rightarrow> path option \<Rightarrow> world \<Rightarrow> bool completion \<times> world" where
  "reorderElement pf elementId insertBefore w =
     (case contentRef w of
        None \<Rightarrow> (Returns False, w)
      | Some c \<Rightarrow>
          (case querySelectorById pf elementId c of
             Throws x \<Rightarrow> (Throws x, w)
           | Returns None \<Rightarrow> (Returns False, w)
           | Returns (Some (p, element)) \<Rightarrow>
               if insertBefore = nextElementSibling c p then (Returns False, w)
               else
                 (let e1 = setStyle ''opacity'' ''1'' element;
                      e2 = removeProperty ''box-shadow''
                             (removeProperty ''outline-offset'' (removeProperty ''outline'' e1));
                      c1 = removeAt p c;
                      finish = (\<lambda>j c2.
                         (let c3 = updateAt [j] (\<lambda>n. applyBuilderStyling n False) c2;
                              w1 = saveCleanContent (w\<lparr>contentRef := Some c3\<rparr>);
                              w2 = w1\<lparr>calls := calls w1 @ [RefreshListeners]\<rparr>;
                              w3 = w2\<lparr>timers := timers w2 @ [SelectLater elementId]\<rparr>
                          in (Returns True, w3)))
                  in case insertBefore of
                       Some q \<Rightarrow>
                         (case childIndexAfterRemoval p q of
                            None \<Rightarrow> (Throws ''NotFoundError'', w\<lparr>contentRef := Some c1\<rparr>)
                          | Some j \<Rightarrow> finish j (insertAt j e2 c1))
                     | None \<Rightarrow> finish (length c1) (c1 @ [e2]))))"

definition createImageElement :: "platform \<Rightarrow> nat \<Rightarrow> string \<Rightarrow> world \<Rightarrow> bool \<times> world" where
  "createImageElement pf k imageUrl w =
     (case contentRef w of
        None \<Rightarrow> (False, w)
      | Some c \<Rightarrow>
          (let uniqueId = generateElementId pf k ''element'' None;
               img = Elem ''IMG'' [(''src'', imageUrl), (''alt'', ''Uploaded image'')]
                       [(''max-width'', ''100%''), (''height'', ''auto''), (''border-radius'', ''8px''),
                        (''box-shadow'', ''0 4px 6px -1px rgba(0, 0, 0, 0.1)'')] [];
               figcaption = Elem ''FIGCAPTION'' []
                       [(''margin-top'', ''8px''), (''font-size'', ''14px''), (''color'', ''#64748b''),
                        (''font-style'', ''italic'')] [Text ''Image caption goes here''];
               figure = Elem ''FIGURE'' [(''data-element-id'', uniqueId)]
                       [(''margin'', ''24px 0''), (''text-align'', ''center'')] [img, figcaption];
               figure1 = applyBuilderStyling figure False;
               existingElements = querySelectorAll (HasAttr ''data-element-id'') c;
               c1 = (if length existingElements = 0
                        \<or> stringIncludes (innerHTML c) ''Start Building Your Layout''
                     then [] else c);
               c2 = c1 @ [figure1];
               w1 = saveCleanContent (w\<lparr>contentRef := Some c2\<rparr>);
               w2 = w1\<lparr>timers := timers w1 @ [RefreshThenSelect uniqueId]\<rparr>
           in (True, w2)))"

definition noDrag :: DragDropState where
  "noDrag = \<lparr>draggedElementType = None, draggedElementId = None\<rparr>"

definition removeDropIndicators :: "world \<Rightarrow> world" where
  "removeDropIndicators w =
     (case contentRef w of
        None \<Rightarrow> w
      | Some c \<Rightarrow> w\<lparr>contentRef := Some (removeMatching (HasClass ''drop-indicator'') c)\<rparr>)"

text \<open>
  \<^verbatim>\<open>handleDrop\<close>. The state is cleared by the last statement of the handler, which an
  exception thrown before it skips.
\<close>

definition handleDrop ::
  "platform \<Rightarrow> nat \<Rightarrow> ElementLibraryItem list \<Rightarrow> DragEvent \<Rightarrow> world \<Rightarrow> unit completion \<times> world" where
  "handleDrop pf k elementLibrary e w =
     (let w0 = removeDropIndicators w;
          data = payload e;
          done = (\<lambda>w'. (Returns (), w'\<lparr>dragState := noDrag\<rparr>))
      in if data \<noteq> [] \<and> startsWith data ''existing:'' then
           (let elementId = drop (length ''existing:'') data
            in if elementId \<noteq> [] then
                 (let insertBefore = findInsertPosition pf e w0
                  in case reorderElement pf elementId insertBefore w0 of
                       (Throws x, w1) \<Rightarrow> (Throws x, w1)
                     | (Returns success, w1) \<Rightarrow> done w1)
               else done w0)
         else if data \<noteq> [] then
           (if startsWith data ''{'' \<and> stringIncludes data (quot @ ''type'' @ quot)
               \<and> stringIncludes data (quot @ ''image'' @ quot)
            then
              (case jsonParse pf data of
                 None \<Rightarrow> done (snd (createNewElement pf k elementLibrary data w0))
               | Some parsedData \<Rightarrow>
                   (case map_of parsedData ''imageUrl'' of
                      None \<Rightarrow> done (snd (createNewElement pf k elementLibrary data w0))
                    | Some url \<Rightarrow>
                        if map_of parsedData ''type'' = Some (JString ''image'')
                           \<and> (case url of JString u \<Rightarrow> u \<noteq> [] | JOther truthy u \<Rightarrow> truthy)
                        then done (snd (createImageElement pf k
                                     (case url of JString u \<Rightarrow> u | JOther truthy u \<Rightarrow> u) w0))
                        else done (snd (createNewElement pf k elementLibrary data w0))))
            else done (snd (createNewElement pf k elementLibrary data w0)))
         else done w0)"

definition handleDragEnd :: "world \<Rightarrow> world" where
  "handleDragEnd w =
     (let w1 = (case contentRef w of
                  None \<Rightarrow> w
                | Some c \<Rightarrow>
                    (let c1 = removeMatching (HasClass ''drop-indicator'') c;
                         c2 = forEachMatching (HasAttr ''data-element-id'')
                                (\<lambda>element. applyBuilderStyling (setStyle ''opacity'' ''1'' element) False) c1
                     in w\<lparr>contentRef := Some c2\<rparr>))
      in w1\<lparr>dragState := noDrag\<rparr>)"

section \<open>Sample page data\<close>

text \<open>
  An identifier that closes the quotation and the bracket and opens a second attribute
  test: spliced into the selector it gives the selector list
  \<^verbatim>\<open>[data-element-id="zz"],[data-element-id="a"]\<close>.
\<close>

definition craftedId :: string where
  "craftedId = ''zz'' @ quot @ ''],[data-element-id='' @ quot @ ''a''"

text \<open>
  A browser for the concrete runs below: it parses the few markup strings that occur there
  as a browser does, and any other string as a single text node. The coordinates of the
  sample layout and the pointer positions used with it are small integers, on which the
  arithmetic of doubles is exact. Of the selector strings that are not plain attribute tests
  it reads the selector list above and rejects the others that occur here (an identifier
  with a lone quotation mark leaves the attribute test unclosed).
\<close>

definition sampleBrowser :: platform where
  "sampleBrowser =
     \<lparr>parseHTML = (\<lambda>s.
        if s = placeholderHtml then
          [Elem ''DIV'' []
             [(''padding'', ''40px''), (''text-align'', ''center''), (''color'', ''#6b7280''),
              (''font-style'', ''italic'')]
             [Text ''Start building your layout by dragging elements from the sidebar'']]
        else if s = ''<p>Hello</p><h1>Title</h1>'' then
          [Elem ''P'' [] [] [Text ''Hello''], Elem ''H1'' [] [] [Text ''Title'']]
        else if s = ''<p>data-element-id</p>'' then
          [Elem ''P'' [] [] [Text ''data-element-id'']]
        else if s = ''<!-- note -->'' then
          [Comment '' note '']
        else [Text s]),
      dateNow = (\<lambda>k. ''1700000000000''),
      mathRandom = (\<lambda>k. [''k3j9x0q1z'', ''p0o9i8u7y'', ''m4n5b6v7c'', ''a1s2d3f4g''] ! (k mod 4)),
      getBoundingClientRect = (\<lambda>p.
        if p = [0] then (0, 100) else if p = [1] then (100, 100) else if p = [2] then (200, 100)
        else if p = [0, 0] then (10, 40) else if p = [0, 1] then (50, 40) else (1000, 0)),
      jsonParse = (\<lambda>s. None),
      plus64 = (\<lambda>x y. x + y),
      minus64 = (\<lambda>x y. x - y),
      divide64 = (\<lambda>x y. x / y),
      parseSelector = (\<lambda>s.
        if s = idSelectorString craftedId
        then Some (AnyOf [AttrEq ''data-element-id'' ''zz'', AttrEq ''data-element-id'' ''a''])
        else None)\<rparr>"

text \<open>
  A canvas with a heading, a figure that bears an image, and a paragraph. All three carry
  left-over selection styling.
\<close>

definition glow :: string where
  "glow = ''0 0 0 4px rgba(249, 115, 22, 0.1)''"

definition sampleFigure :: node where
  "sampleFigure =
     Elem ''FIGURE'' [(''data-element-id'', ''b'')]
       [(''outline'', ''2px solid #f97316''), (''outline-offset'', ''2px'')]
       [Elem ''IMG'' [(''src'', ''cat.png'')] [] [],
        Elem ''FIGCAPTION'' [] [] [Text ''A cat'']]"

definition sampleCanvas :: "node list" where
  "sampleCanvas =
     [Elem ''H1'' [(''data-element-id'', ''a'')]
        [(''outline'', ''2px solid #f97316''), (''outline-offset'', ''2px''), (''box-shadow'', glow)]
        [Text ''Title''],
      sampleFigure,
      Elem ''P'' [(''data-element-id'', ''c'')] [(''box-shadow'', glow)] [Text ''Body'']]"

text \<open>
  A canvas with a tagged list whose items are tagged too, as the normalizer produces it, and
  a paragraph. In the sample layout the list spans 0 to 100, its items 10 to 50 and 50 to 90,
  the second top-level element 100 to 200 and the third 200 to 300.
\<close>

definition sampleList :: "node list" where
  "sampleList =
     [Elem ''UL'' [(''data-element-id'', ''list'')] []
        [Elem ''LI'' [(''data-element-id'', ''item1'')] [] [Text ''one''],
         Elem ''LI'' [(''data-element-id'', ''item2'')] [] [Text ''two'']],
      Elem ''P'' [(''data-element-id'', ''para'')] [] [Text ''Body'']]"

text \<open>
  The sample canvas with a further paragraph whose identifier is the one defined above, and
  a canvas whose first paragraph has an identifier with a quotation mark in it, as imported
  markup that already carries identity attributes can have.
\<close>

definition craftedCanvas :: "node list" where
  "craftedCanvas =
     sampleCanvas @ [Elem ''P'' [(''data-element-id'', craftedId)] [] [Text ''Imported'']]"

definition quotedId :: string where
  "quotedId = ''a'' @ quot @ ''b''"

definition quotedCanvas :: "node list" where
  "quotedCanvas =
     [Elem ''P'' [(''data-element-id'', quotedId)] [] [Text ''one''],
      Elem ''P'' [(''data-element-id'', ''z'')] [] [Text ''two'']]"

definition worldOf :: "node list \<Rightarrow> string \<Rightarrow> world" where
  "worldOf c dragged =
     \<lparr>contentRef = Some c,
      dragState = \<lparr>draggedElementType = None, draggedElementId = Some dragged\<rparr>,
      calls = [], timers = []\<rparr>"

definition dropAt :: "rat \<Rightarrow> string \<Rightarrow> DragEvent" where
  "dropAt y data = \<lparr>clientY = y, payload = data\<rparr>"

definition sampleLibrary :: "ElementLibraryItem list" where
  "sampleLibrary =
     [\<lparr>itemId = ''heading'', title = ''Heading'', template = ''<h2>Heading</h2>''\<rparr>,
      \<lparr>itemId = ''paragraph'', title = ''Paragraph'', template = ''<p>Hello</p><h1>Title</h1>''\<rparr>]"

text \<open>
  The sample canvas after its figure has been selected, the element that the paragraph
  template of the sample library yields, and a world in which a library element is dragged.
\<close>

definition selectedCanvas :: "node list" where
  "selectedCanvas =
     (case fst (snd (selectElement sampleBrowser (Some ''b'') (Some sampleCanvas) noSelection)) of
        Some c \<Rightarrow> c
      | None \<Rightarrow> [])"

definition newParagraph :: node where
  "newParagraph =
     applyBuilderStyling
       (setAttribute ''data-element-id'' (generateElementId sampleBrowser 0 ''element'' None)
          (Elem ''P'' [] [] [Text ''Hello''])) False"

definition libraryDrag :: "node list \<Rightarrow> world" where
  "libraryDrag c =
     \<lparr>contentRef = Some c,
      dragState = \<lparr>draggedElementType = Some ''paragraph'', draggedElementId = None\<rparr>,
      calls = [], timers = []\<rparr>"

section \<open>Properties of the content normalizer\<close>

subsection \<open>Strings\<close>

lemma startsWith_append: "startsWith (pat @ b) pat"
  by (induction pat) auto

lemma startsWith_includes: "startsWith s pat \<Longrightarrow> stringIncludes s pat"
  by (cases s; cases pat) auto

lemma stringIncludes_appendI: "stringIncludes (a @ pat @ b) pat"
  by (induction a) (auto simp: startsWith_append startsWith_includes)

lemma stringIncludes_prepend: "stringIncludes s pat \<Longrightarrow> stringIncludes (a @ s) pat"
  by (induction a) auto

lemma startsWith_extend: "startsWith s pat \<Longrightarrow> startsWith (s @ b) pat"
  by (induction s pat rule: startsWith.induct) auto

lemma stringIncludes_extend: "stringIncludes s pat \<Longrightarrow> stringIncludes (s @ b) pat"
proof (induction s)
  case Nil
  then show ?case by (simp add: startsWith_includes)
next
  case (Cons c s)
  then show ?case using startsWith_extend[of "c # s" pat b] by auto
qed

lemma startsWith_set: "startsWith s pat \<Longrightarrow> set pat \<subseteq> set s"
  by (induction s pat rule: startsWith.induct) auto

lemma stringIncludes_set: "stringIncludes s pat \<Longrightarrow> set pat \<subseteq> set s"
proof (induction s)
  case Nil
  then show ?case by simp
next
  case (Cons c s)
  from Cons.prems have "startsWith (c # s) pat \<or> stringIncludes s pat" by simp
  then show ?case
  proof
    assume "startsWith (c # s) pat"
    then show ?thesis by (rule startsWith_set)
  next
    assume "stringIncludes s pat"
    then have "set pat \<subseteq> set s" by (rule Cons.IH)
    then show ?thesis by auto
  qed
qed

lemma startsWith_drop: "startsWith s w \<Longrightarrow> w @ drop (length w) s = s"
  by (induction s w rule: startsWith.induct) auto

lemma stripLeading_chars: "set s \<subseteq> (\<Union>w \<in> set ws. set w) \<union> set (stripLeading ws s)"
proof (induction ws s rule: stripLeading.induct)
  case (1 ws)
  then show ?case by simp
next
  case (2 ws c s)
  show ?case
  proof (cases "find (\<lambda>w. w \<noteq> [] \<and> startsWith (c # s) w) ws")
    case None
    then show ?thesis by auto
  next
    case (Some w)
    then have w: "w \<in> set ws" "startsWith (c # s) w" by (auto simp: find_Some_iff)
    let ?rest = "drop (length w) (c # s)"
    have "set (w @ ?rest) = set (c # s)" using startsWith_drop[OF w(2)] by simp
    then have split: "set (c # s) = set w \<union> set ?rest" by simp
    have ih: "set ?rest \<subseteq> (\<Union>w \<in> set ws. set w) \<union> set (stripLeading ws ?rest)"
      using 2[OF Some] .
    have res: "stripLeading ws (c # s) = stripLeading ws ?rest" using Some by simp
    show ?thesis unfolding res split using ih w(1) by blast
  qed
qed

lemma trim_blank:
  assumes "trim s = []"
  shows "set s \<subseteq> (\<Union>w \<in> set whiteSpace. set w)"
proof -
  let ?s1 = "stripLeading whiteSpace s"
  from assms have "stripLeading (map rev whiteSpace) (rev ?s1) = []" by (simp add: trim_def)
  with stripLeading_chars[of "rev ?s1" "map rev whiteSpace"]
  have "set ?s1 \<subseteq> (\<Union>w \<in> set whiteSpace. set w)" by auto
  with stripLeading_chars[of s whiteSpace] show ?thesis by blast
qed

lemma letter_not_blank:
  "c \<in> set s \<Longrightarrow> c \<notin> (\<Union>w \<in> set whiteSpace. set w) \<Longrightarrow> trim s \<noteq> []"
  using trim_blank by blast

lemma marker_not_blank: "hasBuilderElements content \<Longrightarrow> trim content \<noteq> []"
proof (rule letter_not_blank)
  assume "hasBuilderElements content"
  then have "set ''data-element-id'' \<subseteq> set content"
    unfolding hasBuilderElements_def by (rule stringIncludes_set)
  then show "CHR ''d'' \<in> set content" by auto
  show "CHR ''d'' \<notin> (\<Union>w \<in> set whiteSpace. set w)" by (simp add: whiteSpace_def)
qed

lemma placeholder_unmarked: "\<not> hasBuilderElements placeholderHtml"
  by (simp add: hasBuilderElements_def placeholderHtml_def quot_def)

lemma placeholder_not_blank: "trim placeholderHtml \<noteq> []"
proof (rule letter_not_blank)
  show "CHR ''<'' \<in> set placeholderHtml" by (simp add: placeholderHtml_def)
  show "CHR ''<'' \<notin> (\<Union>w \<in> set whiteSpace. set w)" by (simp add: whiteSpace_def)
qed

lemma trim_Nil: "trim [] = []"
  by (simp add: trim_def)

subsection \<open>The three outcomes of normalisation\<close>


lemma processContent_blank:
  "trim x = [] \<Longrightarrow> processContentForBuilder pf k x =
     \<lparr>html = placeholderHtml, wasAlreadyProcessed = False, elementCount = 0\<rparr>"
  by (simp add: processContentForBuilder_def)

lemma processContent_marked:
  "hasBuilderElements x \<Longrightarrow> processContentForBuilder pf k x =
     \<lparr>html = x, wasAlreadyProcessed = True, elementCount = matchCount ''data-element-id'' x\<rparr>"
  by (simp add: processContentForBuilder_def marker_not_blank)

lemma processContent_flag:
  "wasAlreadyProcessed (processContentForBuilder pf k x) \<longleftrightarrow> hasBuilderElements x"
  by (auto simp: processContentForBuilder_def Let_def marker_not_blank)

lemma serializeAttrs_includes:
  "map_of a k \<noteq> None \<Longrightarrow> stringIncludes (serializeAttrs a) k"
proof (induction a)
  case Nil
  then show ?case by simp
next
  case (Cons kv kvs)
  obtain k' v where kv: "kv = (k', v)" by (cases kv)
  show ?case
  proof (cases "k' = k")
    case True
    have "stringIncludes ('' '' @ k @ (''='' @ quot @ escapeAttr v @ quot @ serializeAttrs kvs)) k"
      by (rule stringIncludes_appendI)
    with True kv show ?thesis by simp
  next
    case False
    with Cons kv have "stringIncludes (serializeAttrs kvs) k" by simp
    then have "stringIncludes (('' '' @ k' @ ''='' @ quot @ escapeAttr v @ quot) @ serializeAttrs kvs) k"
      by (rule stringIncludes_prepend)
    with kv show ?thesis by simp
  qed
qed

lemma startTag_includes:
  assumes "map_of a k \<noteq> None"
  shows "stringIncludes (startTag t a s) k"
proof -
  have "stringIncludes (serializeAttrs a) k" using assms by (rule serializeAttrs_includes)
  then have "stringIncludes ((''<'' @ toLowerCase t) @ serializeAttrs a) k"
    by (rule stringIncludes_prepend)
  then have "stringIncludes (((''<'' @ toLowerCase t) @ serializeAttrs a)
      @ ((if s = [] then [] else serializeAttrs [(''style'', cssText s)]) @ ''>'')) k"
    by (rule stringIncludes_extend)
  then show ?thesis by (simp add: startTag_def)
qed

lemma serializeNodes_includes:
  "Elem t a s ks \<in> set ns \<Longrightarrow> map_of a k \<noteq> None \<Longrightarrow> stringIncludes (serializeNodes raw ns) k"
proof (induction ns)
  case Nil
  then show ?case by simp
next
  case (Cons n ns)
  show ?case
  proof (cases "n = Elem t a s ks")
    case True
    have "stringIncludes (startTag t a s) k" using Cons.prems(2) by (rule startTag_includes)
    then have "stringIncludes (startTag t a s @
        ((if toLowerCase t \<in> set voidElements then []
          else serializeNodes (toLowerCase t \<in> set rawTextElements) ks @ ''</'' @ toLowerCase t @ ''>'')
         @ serializeNodes raw ns)) k"
      by (rule stringIncludes_extend)
    with True show ?thesis by simp
  next
    case False
    with Cons have ih: "stringIncludes (serializeNodes raw ns) k" by simp
    show ?thesis
    proof (cases n)
      case (Text x)
      from ih have "stringIncludes ((if raw then x else escapeText x) @ serializeNodes raw ns) k"
        by (rule stringIncludes_prepend)
      with Text show ?thesis by simp
    next
      case (Comment x)
      from ih have "stringIncludes ((''<!--'' @ x @ ''-->'') @ serializeNodes raw ns) k"
        by (rule stringIncludes_prepend)
      with Comment show ?thesis by simp
    next
      case (Elem t' a' s' ks')
      from ih have "stringIncludes ((startTag t' a' s' @
        (if toLowerCase t' \<in> set voidElements then []
          else serializeNodes (toLowerCase t' \<in> set rawTextElements) ks' @ ''</'' @ toLowerCase t' @ ''>''))
         @ serializeNodes raw ns) k"
        by (rule stringIncludes_prepend)
      with Elem show ?thesis by simp
    qed
  qed
qed

lemma setStyle_shell [simp]:
  "attributes (setStyle p v n) = attributes n"
  "isElement (setStyle p v n) = isElement n"
  "childNodes (setStyle p v n) = childNodes n"
  "tagName (setStyle p v n) = tagName n"
  by (cases n; simp)+

lemma applyBuilderStyling_shell [simp]:
  "attributes (applyBuilderStyling n b) = attributes n"
  "isElement (applyBuilderStyling n b) = isElement n"
  "childNodes (applyBuilderStyling n b) = childNodes n"
  "tagName (applyBuilderStyling n b) = tagName n"
  by (simp_all add: applyBuilderStyling_def Let_def)

lemma node_shell: "isElement n \<Longrightarrow> \<exists>s. n = Elem (tagName n) (attributes n) s (childNodes n)"
  by (cases n) auto

lemma putEntry_map_of [simp]: "map_of (putEntry k v kvs) k = Some v"
  by (induction kvs) auto

lemma tagged_child_after:
  "Elem t a s ks \<in> set ns \<Longrightarrow> t \<notin> set skippedTags \<Longrightarrow>
   \<exists>t' a' s' ks'. Elem t' a' s' ks' \<in> set (fst (forEachChild pf k ns))
      \<and> map_of a' ''data-element-id'' \<noteq> None"
proof (induction ns arbitrary: k)
  case Nil
  then show ?case by simp
next
  case (Cons n ns)
  obtain n' k' where n': "processElementForBuilder pf k n = (n', k')" by (cases "processElementForBuilder pf k n")
  obtain ns' k'' where ns': "forEachChild pf k' ns = (ns', k'')" by (cases "forEachChild pf k' ns")
  have res: "fst (forEachChild pf k (n # ns)) = n' # ns'" using n' ns' by simp
  show ?case
  proof (cases "n = Elem t a s ks")
    case True
    have "\<exists>t' a' s' ks'. n' = Elem t' a' s' ks' \<and> map_of a' ''data-element-id'' \<noteq> None"
    proof (cases "case map_of a ''data-element-id'' of None \<Rightarrow> False | Some v \<Rightarrow> v \<noteq> []")
      case True
      with \<open>n = Elem t a s ks\<close> Cons.prems(2) n' show ?thesis by (auto split: option.splits)
    next
      case False
      let ?e = "applyBuilderStyling (setAttribute ''data-element-id''
                  (generateElementId pf k ''imported'' (Some t)) (Elem t a s ks)) True"
      have "isElement ?e" by simp
      then obtain sx where e: "?e = Elem (tagName ?e) (attributes ?e) sx (childNodes ?e)"
        using node_shell by blast
      have at: "attributes ?e = putEntry ''data-element-id'' (generateElementId pf k ''imported'' (Some t)) a"
        by simp
      from False \<open>n = Elem t a s ks\<close> Cons.prems(2) n' e at show ?thesis
        by (auto simp: Let_def split: prod.splits node.splits)
    qed
    with res show ?thesis by auto
  next
    case False
    with Cons.prems have "Elem t a s ks \<in> set ns" by simp
    from Cons.IH[OF this Cons.prems(2), of k'] ns' res show ?thesis by auto
  qed
qed

lemma wrapper_marked:
  "hasBuilderElements (outerHTML (applyBuilderStyling
     (setAttribute ''data-element-id'' v (Elem ''DIV'' [] [] ks)) True))"
proof -
  let ?w = "applyBuilderStyling (setAttribute ''data-element-id'' v (Elem ''DIV'' [] [] ks)) True"
  have "isElement ?w" by simp
  then obtain s where w: "?w = Elem (tagName ?w) (attributes ?w) s (childNodes ?w)"
    using node_shell by blast
  have "map_of (attributes ?w) ''data-element-id'' \<noteq> None" by simp
  with w have "stringIncludes (serializeNodes False [?w]) ''data-element-id''"
    using serializeNodes_includes[of "tagName ?w" "attributes ?w" s "childNodes ?w" "[?w]" "''data-element-id''" False]
    by simp
  then show ?thesis by (simp add: hasBuilderElements_def outerHTML_def)
qed

lemma processed_marked:
  assumes "Elem t a s ks \<in> set ns" and "t \<notin> set skippedTags"
  shows "hasBuilderElements (innerHTML (fst (forEachChild pf k ns)))"
proof -
  from tagged_child_after[OF assms, of pf k]
  obtain t' a' s' ks' where "Elem t' a' s' ks' \<in> set (fst (forEachChild pf k ns))"
    and "map_of a' ''data-element-id'' \<noteq> None" by blast
  then have "stringIncludes (serializeNodes False (fst (forEachChild pf k ns))) ''data-element-id''"
    by (rule serializeNodes_includes)
  then show ?thesis by (simp add: hasBuilderElements_def innerHTML_def)
qed

lemma first_pass_marked:
  assumes nb: "trim x \<noteq> []"
    and c: "hasBuilderElements x
      \<or> (querySelector (TagIn blockTags) (parseHTML pf x) = None
          \<and> (0 < length (textContent (parseHTML pf x))
              \<or> stringIncludes (innerHTML (parseHTML pf x)) ''<''))
      \<or> (\<exists>t a s ks. Elem t a s ks \<in> set (parseHTML pf x) \<and> t \<notin> set skippedTags)"
  shows "hasBuilderElements (html (processContentForBuilder pf k x))"
proof (cases "hasBuilderElements x")
  case True
  then show ?thesis by (simp add: processContent_marked)
next
  case False
  show ?thesis
  proof (cases "querySelector (TagIn blockTags) (parseHTML pf x) = None
          \<and> (0 < length (textContent (parseHTML pf x))
              \<or> stringIncludes (innerHTML (parseHTML pf x)) ''<'')")
    case True
    with nb False show ?thesis
      using wrapper_marked[of "generateElementId pf k ''imported-content'' None" "parseHTML pf x"]
      by (simp add: processContentForBuilder_def Let_def)
  next
    case f: False
    with c False obtain t a s ks where "Elem t a s ks \<in> set (parseHTML pf x)" "t \<notin> set skippedTags"
      by blast
    then have "hasBuilderElements (innerHTML (fst (forEachChild pf k (parseHTML pf x))))"
      by (rule processed_marked)
    with nb False show ?thesis
      using wrapper_marked[of "generateElementId pf k ''imported-content'' None" "parseHTML pf x"]
      by (simp add: processContentForBuilder_def Let_def)
  qed
qed

lemma sample_parse_text: "parseHTML sampleBrowser ''plain text no tags'' = [Text ''plain text no tags'']"
  by (simp add: sampleBrowser_def placeholderHtml_def quot_def)

subsection \<open>Already tagged content\<close>

lemma occurrencePositions_Nil: "occurrencePositions pat [] = []"
  by (simp add: occurrencePositions_def)

lemma occurrencePositions_Cons:
  "occurrencePositions pat (c # s) =
     (if startsWith (c # s) pat then [0] else []) @ map Suc (occurrencePositions pat s)"
proof -
  have "[0..<length (c # s)] = 0 # map Suc [0..<length s]"
    by (simp add: upt_conv_Cons map_Suc_upt del: upt_Suc)
  then show ?thesis
    by (simp add: occurrencePositions_def filter_map comp_def)
qed

lemma occurrences_Cons:
  "occurrences pat (c # s) = (if startsWith (c # s) pat then 1 else 0) + occurrences pat s"
  by (simp add: occurrences_def occurrencePositions_Cons)

lemma occurrences_drop: "occurrences pat (drop k s) \<le> occurrences pat s"
proof (induction s arbitrary: k)
  case Nil
  then show ?case by simp
next
  case (Cons c s)
  show ?case
  proof (cases k)
    case 0
    then show ?thesis by simp
  next
    case (Suc k')
    have "occurrences pat (drop k' s) \<le> occurrences pat s" by (rule Cons.IH)
    then show ?thesis using Suc by (simp add: occurrences_Cons)
  qed
qed

lemma matchCount_le: "matchCount pat s \<le> occurrences pat s"
proof (induction pat s rule: matchCount.induct)
  case (1 pat)
  then show ?case by simp
next
  case (2 pat c s)
  show ?case
  proof (cases "pat = []")
    case True
    then show ?thesis by simp
  next
    case ne: False
    show ?thesis
    proof (cases "startsWith (c # s) pat")
      case True
      have d: "drop (length pat) (c # s) = drop (length pat - 1) s" using ne by (cases pat) auto
      have "matchCount pat (drop (length pat) (c # s)) \<le> occurrences pat (drop (length pat) (c # s))"
        using 2(1)[OF ne True] .
      also have "\<dots> \<le> occurrences pat s"
        unfolding d by (rule occurrences_drop)
      finally have "matchCount pat (drop (length pat) (c # s)) \<le> occurrences pat s" .
      then show ?thesis using ne True by (simp add: occurrences_Cons del: drop_Suc_Cons)
    next
      case False
      with 2(2)[OF ne False] ne show ?thesis by (simp add: occurrences_Cons)
    qed
  qed
qed

lemma matchCount_pos: "pat \<noteq> [] \<Longrightarrow> stringIncludes s pat \<Longrightarrow> 1 \<le> matchCount pat s"
proof (induction pat s rule: matchCount.induct)
  case (1 pat)
  then show ?case by simp
next
  case (2 pat c s)
  show ?case
  proof (cases "startsWith (c # s) pat")
    case True
    with 2(3) show ?thesis by simp
  next
    case False
    with 2(4) have "stringIncludes s pat" by simp
    with 2(2)[OF 2(3) False 2(3)] 2(3) False show ?thesis by simp
  qed
qed

lemma occurrences_skip:
  "\<forall>j \<in> set (occurrencePositions pat s). k \<le> j \<Longrightarrow> occurrences pat (drop k s) = occurrences pat s"
proof (induction k arbitrary: s)
  case 0
  then show ?case by simp
next
  case (Suc k)
  show ?case
  proof (cases s)
    case Nil
    then show ?thesis by simp
  next
    case (Cons c s')
    from Suc.prems Cons have n0: "\<not> startsWith (c # s') pat"
      by (auto simp: occurrencePositions_Cons split: if_splits)
    from Suc.prems Cons have "\<forall>j \<in> set (occurrencePositions pat s'). k \<le> j"
      by (auto simp: occurrencePositions_Cons split: if_splits)
    then have "occurrences pat (drop k s') = occurrences pat s'" by (rule Suc.IH)
    with n0 Cons show ?thesis by (simp add: occurrences_Cons)
  qed
qed

lemma overlapFree_tail:
  assumes "overlapFree pat (c # s)"
  shows "overlapFree pat s"
  unfolding overlapFree_def
proof (intro ballI impI)
  fix i j
  assume i: "i \<in> set (occurrencePositions pat s)" and j: "j \<in> set (occurrencePositions pat s)"
    and lt: "i < j"
  have "Suc i \<in> set (occurrencePositions pat (c # s))" "Suc j \<in> set (occurrencePositions pat (c # s))"
    using i j by (simp_all add: occurrencePositions_Cons)
  moreover have "Suc i < Suc j" using lt by simp
  ultimately have "Suc i + length pat \<le> Suc j" using assms unfolding overlapFree_def by blast
  then show "i + length pat \<le> j" by simp
qed

lemma overlapFree_drop: "overlapFree pat s \<Longrightarrow> overlapFree pat (drop k s)"
proof (induction s arbitrary: k)
  case Nil
  then show ?case by simp
next
  case (Cons c s)
  show ?case
  proof (cases k)
    case 0
    with Cons.prems show ?thesis by simp
  next
    case (Suc k')
    from Cons.prems have "overlapFree pat s" by (rule overlapFree_tail)
    then have "overlapFree pat (drop k' s)" by (rule Cons.IH)
    with Suc show ?thesis by simp
  qed
qed

lemma matchCount_exact: "overlapFree pat s \<Longrightarrow> pat \<noteq> [] \<Longrightarrow> matchCount pat s = occurrences pat s"
proof (induction pat s rule: matchCount.induct)
  case (1 pat)
  then show ?case by (simp add: occurrences_def occurrencePositions_Nil)
next
  case (2 pat c s)
  note ne = 2(4)
  show ?case
  proof (cases "startsWith (c # s) pat")
    case True
    have d: "drop (length pat) (c # s) = drop (length pat - 1) s" using ne by (cases pat) auto
    have "overlapFree pat (drop (length pat) (c # s))" using 2(3) by (rule overlapFree_drop)
    then have ih: "matchCount pat (drop (length pat) (c # s)) = occurrences pat (drop (length pat) (c # s))"
      using 2(1)[OF ne True] ne by simp
    have "\<forall>j \<in> set (occurrencePositions pat s). length pat - 1 \<le> j"
    proof
      fix j assume j: "j \<in> set (occurrencePositions pat s)"
      have "0 \<in> set (occurrencePositions pat (c # s))" using True by (simp add: occurrencePositions_Cons)
      moreover have "Suc j \<in> set (occurrencePositions pat (c # s))"
        using j by (simp add: occurrencePositions_Cons)
      ultimately have "0 + length pat \<le> Suc j" using 2(3) unfolding overlapFree_def by blast
      then show "length pat - 1 \<le> j" by simp
    qed
    then have "occurrences pat (drop (length pat - 1) s) = occurrences pat s" by (rule occurrences_skip)
    with ih d ne True show ?thesis by (simp add: occurrences_Cons)
  next
    case False
    from 2(3) have "overlapFree pat s" by (rule overlapFree_tail)
    with 2(2)[OF ne False] ne False show ?thesis by (simp add: occurrences_Cons)
  qed
qed

lemma occurrencePositions_mem:
  "p \<in> set (occurrencePositions pat s) \<longleftrightarrow> p < length s \<and> startsWith (drop p s) pat"
  by (auto simp: occurrencePositions_def)

lemma occurrencePositions_shift:
  "q \<in> set (occurrencePositions pat (drop k s)) \<longleftrightarrow> q + k \<in> set (occurrencePositions pat s)"
  by (auto simp: occurrencePositions_mem add.commute)

lemma separated_tail: "separated n (p # ps) \<Longrightarrow> separated n ps"
  by (cases ps) auto

lemma separated_after: "0 < n \<Longrightarrow> separated n (p # ps) \<Longrightarrow> \<forall>q \<in> set ps. p + n \<le> q"
proof (induction ps arbitrary: p)
  case Nil
  then show ?case by simp
next
  case (Cons a ps)
  from Cons.prems(2) have a: "p + n \<le> a" and t: "separated n (a # ps)" by auto
  from Cons.IH[OF Cons.prems(1) t] have "\<forall>q \<in> set ps. a + n \<le> q" .
  with a show ?case by auto
qed

lemma separated_minus:
  "separated n ps \<Longrightarrow> \<forall>q \<in> set ps. k \<le> q \<Longrightarrow> separated n (map (\<lambda>q. q - k) ps)"
  by (induction n ps rule: separated.induct) auto

lemma separated_plus: "separated n ps \<Longrightarrow> separated n (map (\<lambda>q. q + k) ps)"
  by (induction n ps rule: separated.induct) auto

lemma nonOverlapping_le:
  "pat \<noteq> [] \<Longrightarrow> nonOverlapping pat s ps \<Longrightarrow> length ps \<le> matchCount pat s"
proof (induction pat s arbitrary: ps rule: matchCount.induct)
  case (1 pat)
  then show ?case by (simp add: nonOverlapping_def occurrencePositions_Nil)
next
  case (2 pat c s)
  note ne = "2.prems"(1)
  have sub: "set ps \<subseteq> set (occurrencePositions pat (c # s))"
    and sep: "separated (length pat) ps"
    using "2.prems"(2) by (simp_all add: nonOverlapping_def)
  let ?n = "length pat"
  have npos: "0 < ?n" using ne by simp
  show ?case
  proof (cases "startsWith (c # s) pat")
    case True
    show ?thesis
    proof (cases ps)
      case Nil
      then show ?thesis by simp
    next
      case (Cons p rest)
      have ge: "\<forall>q \<in> set rest. ?n \<le> q"
        using separated_after[OF npos] sep Cons by fastforce
      let ?rest = "map (\<lambda>q. q - ?n) rest"
      have "separated ?n rest" using sep Cons by (auto dest: separated_tail)
      then have s1: "separated ?n ?rest" using ge by (rule separated_minus)
      have s2: "set ?rest \<subseteq> set (occurrencePositions pat (drop ?n (c # s)))"
      proof
        fix x assume "x \<in> set ?rest"
        then obtain q where q: "q \<in> set rest" "x = q - ?n" by auto
        with ge have "x + ?n = q" by simp
        moreover have "q \<in> set (occurrencePositions pat (c # s))" using q(1) sub Cons by auto
        ultimately show "x \<in> set (occurrencePositions pat (drop ?n (c # s)))"
          using occurrencePositions_shift[of x pat ?n "c # s"] by simp
      qed
      have "nonOverlapping pat (drop ?n (c # s)) ?rest"
        unfolding nonOverlapping_def using s1 s2 by (rule_tac conjI)
      then have "length ?rest \<le> matchCount pat (drop ?n (c # s))"
        using "2.IH"(1)[OF ne True ne] by blast
      then show ?thesis using Cons True ne by simp
    qed
  next
    case False
    have ge: "\<forall>q \<in> set ps. 1 \<le> q"
    proof
      fix q assume "q \<in> set ps"
      with sub have "q \<in> set (occurrencePositions pat (c # s))" by auto
      with False show "1 \<le> q" by (auto simp: occurrencePositions_Cons)
    qed
    let ?ps = "map (\<lambda>q. q - 1) ps"
    have s1: "separated ?n ?ps" using sep ge by (rule separated_minus)
    have s2: "set ?ps \<subseteq> set (occurrencePositions pat s)"
    proof
      fix x assume "x \<in> set ?ps"
      then obtain q where q: "q \<in> set ps" "x = q - 1" by auto
      with ge have "Suc x = q" by auto
      moreover have "q \<in> set (occurrencePositions pat (c # s))" using q(1) sub by auto
      ultimately show "x \<in> set (occurrencePositions pat s)"
        using False by (auto simp: occurrencePositions_Cons)
    qed
    have "nonOverlapping pat s ?ps" unfolding nonOverlapping_def using s1 s2 by (rule_tac conjI)
    then have "length ?ps \<le> matchCount pat s" using "2.IH"(2)[OF ne False ne] by blast
    then show ?thesis using False ne by simp
  qed
qed

lemma nonOverlapping_ex:
  "pat \<noteq> [] \<Longrightarrow> \<exists>ps. nonOverlapping pat s ps \<and> length ps = matchCount pat s"
proof (induction pat s rule: matchCount.induct)
  case (1 pat)
  have "nonOverlapping pat [] [] \<and> length ([] :: nat list) = matchCount pat []"
    by (simp add: nonOverlapping_def)
  then show ?case by (rule exI)
next
  case (2 pat c s)
  note ne = "2.prems"
  let ?n = "length pat"
  show ?case
  proof (cases "startsWith (c # s) pat")
    case True
    from "2.IH"(1)[OF ne True ne] obtain ps where
      ps: "nonOverlapping pat (drop ?n (c # s)) ps" "length ps = matchCount pat (drop ?n (c # s))"
      by blast
    let ?ps = "0 # map (\<lambda>q. q + ?n) ps"
    have z: "0 \<in> set (occurrencePositions pat (c # s))"
      using True by (simp add: occurrencePositions_Cons)
    have sh: "set (map (\<lambda>q. q + ?n) ps) \<subseteq> set (occurrencePositions pat (c # s))"
    proof
      fix x assume "x \<in> set (map (\<lambda>q. q + ?n) ps)"
      then obtain q where q: "q \<in> set ps" "x = q + ?n" by auto
      from q(1) ps(1) have "q \<in> set (occurrencePositions pat (drop ?n (c # s)))"
        by (auto simp: nonOverlapping_def)
      then show "x \<in> set (occurrencePositions pat (c # s))"
        using occurrencePositions_shift[of q pat ?n "c # s"] q(2) by simp
    qed
    have sp: "separated ?n (map (\<lambda>q. q + ?n) ps)"
      using ps(1) by (simp add: nonOverlapping_def separated_plus)
    have "separated ?n ?ps"
    proof (cases ps)
      case Nil
      then show ?thesis by simp
    next
      case (Cons a as)
      with sp show ?thesis by simp
    qed
    with z sh have "nonOverlapping pat (c # s) ?ps" by (simp add: nonOverlapping_def)
    moreover have "length ?ps = matchCount pat (c # s)" using ps(2) True ne by simp
    ultimately show ?thesis by blast
  next
    case False
    from "2.IH"(2)[OF ne False ne] obtain ps where
      ps: "nonOverlapping pat s ps" "length ps = matchCount pat s" by blast
    let ?ps = "map Suc ps"
    have "set ?ps \<subseteq> set (occurrencePositions pat (c # s))"
      using ps(1) by (auto simp: nonOverlapping_def occurrencePositions_Cons)
    moreover have "separated ?n ?ps"
      using ps(1) separated_plus[of ?n ps 1] by (simp add: nonOverlapping_def)
    ultimately have "nonOverlapping pat (c # s) ?ps" by (simp add: nonOverlapping_def)
    moreover have "length ?ps = matchCount pat (c # s)" using ps(2) False ne by simp
    ultimately show ?thesis by blast
  qed
qed

text \<open>
  Claim C9, as amended. When the input string contains the identity-attribute marker
  anywhere, \<^verbatim>\<open>processContentForBuilder\<close> returns it unchanged and reports it as already
  processed. \<open>elementCount\<close> is the number of matches that the global regular
  expression finds in the raw string, from left to right and without overlap, whatever the
  matches are part of. That is the largest number of occurrences of the literal
  \<^verbatim>\<open>data-element-id\<close> that can be picked without overlap: some such pick has this
  size and none is larger. It is at least one, never more than the number of occurrences,
  and equal to that number whenever no two occurrences overlap.
\<close>

theorem marked_content_returned_unchanged:
  "hasBuilderElements content \<Longrightarrow>
     html (processContentForBuilder pf k content) = content
     \<and> wasAlreadyProcessed (processContentForBuilder pf k content)
     \<and> elementCount (processContentForBuilder pf k content) = matchCount ''data-element-id'' content
     \<and> (\<exists>ps. nonOverlapping ''data-element-id'' content ps
            \<and> length ps = elementCount (processContentForBuilder pf k content))
     \<and> (\<forall>ps. nonOverlapping ''data-element-id'' content ps
            \<longrightarrow> length ps \<le> elementCount (processContentForBuilder pf k content))
     \<and> 1 \<le> elementCount (processContentForBuilder pf k content)
     \<and> elementCount (processContentForBuilder pf k content) \<le> occurrences ''data-element-id'' content
     \<and> (overlapFree ''data-element-id'' content \<longrightarrow>
          elementCount (processContentForBuilder pf k content) = occurrences ''data-element-id'' content)"
proof -
  assume h: "hasBuilderElements content"
  then have r: "processContentForBuilder pf k content =
      \<lparr>html = content, wasAlreadyProcessed = True,
       elementCount = matchCount ''data-element-id'' content\<rparr>"
    by (rule processContent_marked)
  have ne: "''data-element-id'' \<noteq> []" by simp
  have pos: "1 \<le> matchCount ''data-element-id'' content"
    using h unfolding hasBuilderElements_def by (rule matchCount_pos[OF ne])
  have le: "matchCount ''data-element-id'' content \<le> occurrences ''data-element-id'' content"
    by (rule matchCount_le)
  have ex: "overlapFree ''data-element-id'' content \<longrightarrow>
      matchCount ''data-element-id'' content = occurrences ''data-element-id'' content"
    using matchCount_exact[OF _ ne] by (rule impI)
  have pick: "\<exists>ps. nonOverlapping ''data-element-id'' content ps
      \<and> length ps = matchCount ''data-element-id'' content"
    by (rule nonOverlapping_ex[OF ne])
  have most: "\<forall>ps. nonOverlapping ''data-element-id'' content ps
      \<longrightarrow> length ps \<le> matchCount ''data-element-id'' content"
    using nonOverlapping_le[OF ne] by blast
  show ?thesis unfolding r using pos le ex pick most by simp
qed

text \<open>
  The count can exceed the number of tagged elements. In the first run the marker occurs
  once, in the text of an untagged paragraph: the count is one, the number of tagged
  elements of the parsed markup is zero. In the second run it occurs twice, once as an
  attribute and once as text, and the count is two.
\<close>

theorem marked_content_returned_unchanged_witness:
  "hasBuilderElements ''<p>data-element-id</p>''
   \<and> overlapFree ''data-element-id'' ''<p>data-element-id</p>''
   \<and> occurrences ''data-element-id'' ''<p>data-element-id</p>'' = 1
   \<and> html (processContentForBuilder sampleBrowser 0 ''<p>data-element-id</p>'') = ''<p>data-element-id</p>''
   \<and> wasAlreadyProcessed (processContentForBuilder sampleBrowser 0 ''<p>data-element-id</p>'')
   \<and> elementCount (processContentForBuilder sampleBrowser 0 ''<p>data-element-id</p>'') = 1
   \<and> length (querySelectorAll (HasAttr ''data-element-id'')
         (parseHTML sampleBrowser ''<p>data-element-id</p>'')) = 0
   \<and> hasBuilderElements ''<p data-element-id=x>data-element-id</p>''
   \<and> overlapFree ''data-element-id'' ''<p data-element-id=x>data-element-id</p>''
   \<and> occurrences ''data-element-id'' ''<p data-element-id=x>data-element-id</p>'' = 2
   \<and> elementCount (processContentForBuilder sampleBrowser 0 ''<p data-element-id=x>data-element-id</p>'') = 2
   \<and> nonOverlapping ''data-element-id'' ''<p data-element-id=x>data-element-id</p>'' [3, 21]
   \<and> length [3 :: nat, 21]
       \<le> elementCount (processContentForBuilder sampleBrowser 0 ''<p data-element-id=x>data-element-id</p>'')"
proof -
  have h1: "hasBuilderElements ''<p>data-element-id</p>''"
    by (simp add: hasBuilderElements_def)
  have f1: "overlapFree ''data-element-id'' ''<p>data-element-id</p>''"
    by code_simp
  have o1: "occurrences ''data-element-id'' ''<p>data-element-id</p>'' = 1"
    by code_simp
  have p: "length (querySelectorAll (HasAttr ''data-element-id'')
         (parseHTML sampleBrowser ''<p>data-element-id</p>'')) = 0"
    by code_simp
  have h2: "hasBuilderElements ''<p data-element-id=x>data-element-id</p>''"
    by (simp add: hasBuilderElements_def)
  have f2: "overlapFree ''data-element-id'' ''<p data-element-id=x>data-element-id</p>''"
    by code_simp
  have o2: "occurrences ''data-element-id'' ''<p data-element-id=x>data-element-id</p>'' = 2"
    by code_simp
  note t1 = marked_content_returned_unchanged[OF h1, of sampleBrowser 0]
  note t2 = marked_content_returned_unchanged[OF h2, of sampleBrowser 0]
  from t1 have a: "html (processContentForBuilder sampleBrowser 0 ''<p>data-element-id</p>'') = ''<p>data-element-id</p>''"
    by (rule conjunct1)
  from t1 have b: "wasAlreadyProcessed (processContentForBuilder sampleBrowser 0 ''<p>data-element-id</p>'')"
    by (elim conjE)
  from t1 f1 have "elementCount (processContentForBuilder sampleBrowser 0 ''<p>data-element-id</p>'')
      = occurrences ''data-element-id'' ''<p>data-element-id</p>''"
    by (elim conjE impE)
  from this o1 have c: "elementCount (processContentForBuilder sampleBrowser 0 ''<p>data-element-id</p>'') = 1"
    by (rule trans)
  from t2 f2 have "elementCount (processContentForBuilder sampleBrowser 0 ''<p data-element-id=x>data-element-id</p>'')
      = occurrences ''data-element-id'' ''<p data-element-id=x>data-element-id</p>''"
    by (elim conjE impE)
  from this o2 have d: "elementCount (processContentForBuilder sampleBrowser 0 ''<p data-element-id=x>data-element-id</p>'') = 2"
    by (rule trans)
  have n2: "nonOverlapping ''data-element-id'' ''<p data-element-id=x>data-element-id</p>'' [3, 21]"
    by code_simp
  from t2 have "\<forall>ps. nonOverlapping ''data-element-id'' ''<p data-element-id=x>data-element-id</p>'' ps
      \<longrightarrow> length ps
          \<le> elementCount (processContentForBuilder sampleBrowser 0 ''<p data-element-id=x>data-element-id</p>'')"
    by (elim conjE)
  then have "nonOverlapping ''data-element-id'' ''<p data-element-id=x>data-element-id</p>'' [3, 21]
      \<longrightarrow> length [3 :: nat, 21]
          \<le> elementCount (processContentForBuilder sampleBrowser 0 ''<p data-element-id=x>data-element-id</p>'')"
    by (rule spec)
  from this n2 have e: "length [3 :: nat, 21]
       \<le> elementCount (processContentForBuilder sampleBrowser 0 ''<p data-element-id=x>data-element-id</p>'')"
    by (rule mp)
  from h1 f1 o1 a b c p h2 f2 o2 d n2 e show ?thesis by (intro conjI)
qed

text \<open>
  Claim C9 as stated fails where occurrences overlap: the literal ends with the letter it
  begins with, and in \<^verbatim>\<open>data-element-idata-element-id\<close> it occurs twice, at the
  positions 0 and 14, while the second occurrence starts inside the first match and is not
  counted.
\<close>

theorem overlapping_markers_counterexample:
  "hasBuilderElements ''data-element-idata-element-id''
   \<and> occurrencePositions ''data-element-id'' ''data-element-idata-element-id'' = [0, 14]
   \<and> occurrences ''data-element-id'' ''data-element-idata-element-id'' = 2
   \<and> \<not> nonOverlapping ''data-element-id'' ''data-element-idata-element-id'' [0, 14]
   \<and> elementCount (processContentForBuilder sampleBrowser 0 ''data-element-idata-element-id'') = 1"
  by code_simp

subsection \<open>Normalising twice\<close>

text \<open>
  Claim C1, as amended. The second normalisation is a no-operation (same markup, reported as
  already processed) for every input that is not blank and for which the first
  normalisation tags something: the input already carries the marker, or its parsed
  fragment has no block element and has text or serialises to markup (a comment alone does)
  so that it gets the wrapper, or its parsed fragment has a top-level element outside the
  skipped tags. For an empty or blank input (white space in the sense of \<^verbatim>\<open>trim\<close>,
  the no-break space included) the first normalisation returns the placeholder, which
  carries no identity attribute, and the second normalisation does not report it as already
  processed.
\<close>

theorem normalize_twice:
  "(trim x \<noteq> []
     \<and> (hasBuilderElements x
        \<or> (querySelector (TagIn blockTags) (parseHTML pf x) = None
            \<and> (0 < length (textContent (parseHTML pf x))
                \<or> stringIncludes (innerHTML (parseHTML pf x)) ''<''))
        \<or> (\<exists>t a s ks. Elem t a s ks \<in> set (parseHTML pf x) \<and> t \<notin> set skippedTags))
    \<longrightarrow> html (processContentForBuilder pf' k' (html (processContentForBuilder pf k x)))
          = html (processContentForBuilder pf k x)
        \<and> wasAlreadyProcessed (processContentForBuilder pf' k' (html (processContentForBuilder pf k x))))
   \<and> (trim x = []
    \<longrightarrow> html (processContentForBuilder pf k x) = placeholderHtml
        \<and> \<not> wasAlreadyProcessed (processContentForBuilder pf' k' (html (processContentForBuilder pf k x))))"
proof (intro conjI impI)
  assume a: "trim x \<noteq> []
     \<and> (hasBuilderElements x
        \<or> (querySelector (TagIn blockTags) (parseHTML pf x) = None
            \<and> (0 < length (textContent (parseHTML pf x))
                \<or> stringIncludes (innerHTML (parseHTML pf x)) ''<''))
        \<or> (\<exists>t a s ks. Elem t a s ks \<in> set (parseHTML pf x) \<and> t \<notin> set skippedTags))"
  then have m: "hasBuilderElements (html (processContentForBuilder pf k x))"
    using first_pass_marked[of x pf k] by blast
  from m show "html (processContentForBuilder pf' k' (html (processContentForBuilder pf k x)))
          = html (processContentForBuilder pf k x)"
    by (simp add: processContent_marked)
  from m show "wasAlreadyProcessed (processContentForBuilder pf' k' (html (processContentForBuilder pf k x)))"
    by (simp add: processContent_marked)
next
  assume b: "trim x = []"
  then show "html (processContentForBuilder pf k x) = placeholderHtml"
    by (simp add: processContent_blank)
  from b show "\<not> wasAlreadyProcessed (processContentForBuilder pf' k' (html (processContentForBuilder pf k x)))"
    by (simp add: processContent_blank processContent_flag placeholder_unmarked)
qed

text \<open>
  Plain text and a lone comment are wrapped and tagged, and stay as they are in the second
  pass; a blank and a no-break space give the placeholder.
\<close>

theorem normalize_twice_witness:
  "trim ''plain text no tags'' \<noteq> []
   \<and> querySelector (TagIn blockTags) (parseHTML sampleBrowser ''plain text no tags'') = None
   \<and> 0 < length (textContent (parseHTML sampleBrowser ''plain text no tags''))
   \<and> html (processContentForBuilder sampleBrowser 1
             (html (processContentForBuilder sampleBrowser 0 ''plain text no tags'')))
       = html (processContentForBuilder sampleBrowser 0 ''plain text no tags'')
   \<and> wasAlreadyProcessed (processContentForBuilder sampleBrowser 1
             (html (processContentForBuilder sampleBrowser 0 ''plain text no tags'')))
   \<and> trim ''<!-- note -->'' \<noteq> []
   \<and> parseHTML sampleBrowser ''<!-- note -->'' = [Comment '' note '']
   \<and> stringIncludes (innerHTML (parseHTML sampleBrowser ''<!-- note -->'')) ''<''
   \<and> html (processContentForBuilder sampleBrowser 1
             (html (processContentForBuilder sampleBrowser 0 ''<!-- note -->'')))
       = html (processContentForBuilder sampleBrowser 0 ''<!-- note -->'')
   \<and> trim '' '' = []
   \<and> html (processContentForBuilder sampleBrowser 0 '' '') = placeholderHtml
   \<and> \<not> wasAlreadyProcessed (processContentForBuilder sampleBrowser 1
             (html (processContentForBuilder sampleBrowser 0 '' '')))
   \<and> trim [CHR 0xC2, CHR 0xA0] = []
   \<and> html (processContentForBuilder sampleBrowser 0 [CHR 0xC2, CHR 0xA0]) = placeholderHtml"
proof -
  let ?x = "''plain text no tags''"
  let ?y = "''<!-- note -->''"
  have 1: "trim ?x \<noteq> []" by code_simp
  have 2: "querySelector (TagIn blockTags) (parseHTML sampleBrowser ?x) = None"
    by (simp add: sample_parse_text querySelector_def querySelectorAll_def)
  have 3: "0 < length (textContent (parseHTML sampleBrowser ?x))"
    by (simp add: sample_parse_text)
  have 4: "trim '' '' = []" by code_simp
  have 5: "trim ?y \<noteq> []" by code_simp
  have 6: "parseHTML sampleBrowser ?y = [Comment '' note '']" by code_simp
  have 7: "querySelector (TagIn blockTags) (parseHTML sampleBrowser ?y) = None"
    unfolding 6 by (simp add: querySelector_def querySelectorAll_def)
  have 8: "stringIncludes (innerHTML (parseHTML sampleBrowser ?y)) ''<''"
    unfolding 6 by (simp add: innerHTML_def)
  have 9: "trim [CHR 0xC2, CHR 0xA0] = []" by code_simp
  note tx = normalize_twice[of ?x sampleBrowser sampleBrowser 1 0]
  note ty = normalize_twice[of ?y sampleBrowser sampleBrowser 1 0]
  note tb = normalize_twice[of "'' ''" sampleBrowser sampleBrowser 1 0]
  note tn = normalize_twice[of "[CHR 0xC2, CHR 0xA0]" sampleBrowser sampleBrowser 1 0]
  have hx: "trim ?x \<noteq> []
     \<and> (hasBuilderElements ?x
        \<or> (querySelector (TagIn blockTags) (parseHTML sampleBrowser ?x) = None
            \<and> (0 < length (textContent (parseHTML sampleBrowser ?x))
                \<or> stringIncludes (innerHTML (parseHTML sampleBrowser ?x)) ''<''))
        \<or> (\<exists>t a s ks. Elem t a s ks \<in> set (parseHTML sampleBrowser ?x) \<and> t \<notin> set skippedTags))"
    using 1 2 3 by (intro conjI disjI1 disjI2) 
  have hy: "trim ?y \<noteq> []
     \<and> (hasBuilderElements ?y
        \<or> (querySelector (TagIn blockTags) (parseHTML sampleBrowser ?y) = None
            \<and> (0 < length (textContent (parseHTML sampleBrowser ?y))
                \<or> stringIncludes (innerHTML (parseHTML sampleBrowser ?y)) ''<''))
        \<or> (\<exists>t a s ks. Elem t a s ks \<in> set (parseHTML sampleBrowser ?y) \<and> t \<notin> set skippedTags))"
  proof (rule conjI[OF 5], rule disjI2, rule disjI1, rule conjI[OF 7], rule disjI2)
    show "stringIncludes (innerHTML (parseHTML sampleBrowser ?y)) ''<''" by (rule 8)
  qed
  note rx = tx[THEN conjunct1, THEN mp, OF hx]
  note ry = ty[THEN conjunct1, THEN mp, OF hy]
  note rb = tb[THEN conjunct2, THEN mp, OF 4]
  note rn = tn[THEN conjunct2, THEN mp, OF 9]
  from 1 2 3 rx 5 6 8 ry[THEN conjunct1] 4 rb 9 rn[THEN conjunct1] show ?thesis
    by (elim conjE) (intro conjI)
qed

text \<open>
  Claim C1 as stated fails at the empty input: the placeholder is returned, the second call
  treats it as foreign markup (\<open>wasAlreadyProcessed\<close> is false) and tags and restyles its
  block, so that the markup changes.
\<close>

theorem normalize_placeholder_counterexample:
  "html (processContentForBuilder sampleBrowser 0 '''') = placeholderHtml
   \<and> \<not> wasAlreadyProcessed (processContentForBuilder sampleBrowser 1
         (html (processContentForBuilder sampleBrowser 0 '''')))
   \<and> html (processContentForBuilder sampleBrowser 1
         (html (processContentForBuilder sampleBrowser 0 '''')))
       \<noteq> html (processContentForBuilder sampleBrowser 0 '''')"
proof -
  have 1: "processContentForBuilder sampleBrowser 0 '''' =
      \<lparr>html = placeholderHtml, wasAlreadyProcessed = False, elementCount = 0\<rparr>"
    by (simp add: processContent_blank trim_Nil)
  have 2: "\<not> wasAlreadyProcessed (processContentForBuilder sampleBrowser 1 placeholderHtml)"
    by (simp add: processContent_flag placeholder_unmarked)
  have 3: "hasBuilderElements (html (processContentForBuilder sampleBrowser 1 placeholderHtml))"
  proof (rule first_pass_marked)
    show "trim placeholderHtml \<noteq> []" by (rule placeholder_not_blank)
    have "Elem ''DIV'' []
             [(''padding'', ''40px''), (''text-align'', ''center''), (''color'', ''#6b7280''),
              (''font-style'', ''italic'')]
             [Text ''Start building your layout by dragging elements from the sidebar'']
           \<in> set (parseHTML sampleBrowser placeholderHtml)"
      by (simp add: sampleBrowser_def)
    moreover have "''DIV'' \<notin> set skippedTags" by (simp add: skippedTags_def)
    ultimately show "hasBuilderElements placeholderHtml
      \<or> (querySelector (TagIn blockTags) (parseHTML sampleBrowser placeholderHtml) = None
          \<and> (0 < length (textContent (parseHTML sampleBrowser placeholderHtml))
              \<or> stringIncludes (innerHTML (parseHTML sampleBrowser placeholderHtml)) ''<''))
      \<or> (\<exists>t a s ks. Elem t a s ks \<in> set (parseHTML sampleBrowser placeholderHtml) \<and> t \<notin> set skippedTags)"
      by blast
  qed
  from 3 have 4: "html (processContentForBuilder sampleBrowser 1 placeholderHtml) \<noteq> placeholderHtml"
    using placeholder_unmarked by auto
  from 1 2 4 show ?thesis by simp
qed

section \<open>Properties of selection\<close>

subsection \<open>Walking the tree\<close>

lemma walkFrom_nodes: "map snd (walkFrom i ns) = descendants ns"
  by (induction i ns rule: walkFrom.induct) (auto simp: comp_def case_prod_unfold)

lemma querySelectorAll_nodes:
  "map snd (querySelectorAll sel ns) = filter (matches sel) (descendants ns)"
  by (simp add: querySelectorAll_def filter_map comp_def flip: walkFrom_nodes[of 0 ns])

lemma descendants_append: "descendants (xs @ ys) = descendants xs @ descendants ys"
  by (induction xs rule: descendants.induct) auto

lemma descendants_children:
  "e \<in> set (descendants ns) \<Longrightarrow> set (descendants (childNodes e)) \<subseteq> set (descendants ns)"
  by (induction ns rule: descendants.induct) auto

lemma walkFrom_head: "(p, e) \<in> set (walkFrom i ns) \<Longrightarrow> \<exists>j q. p = j # q \<and> i \<le> j"
proof (induction i ns arbitrary: p rule: walkFrom.induct)
  case (1 i)
  then show ?case by simp
next
  case (2 i x ns)
  then have "\<exists>j q. p = j # q \<and> Suc i \<le> j" by simp
  then show ?case using Suc_leD by blast
next
  case (3 i t a s ks ns)
  from "3.prems" consider "p = [i]" | "\<exists>q. p = i # q" | "(p, e) \<in> set (walkFrom (Suc i) ns)"
    by auto
  then show ?case
  proof cases
    case 3
    then have "\<exists>j q. p = j # q \<and> Suc i \<le> j" by (rule "3.IH"(2))
    then show ?thesis using Suc_leD by blast
  qed auto
next
  case (4 i x ns)
  then have "\<exists>j q. p = j # q \<and> Suc i \<le> j" by simp
  then show ?case using Suc_leD by blast
qed

lemma getStyle_inlineStyle: "inlineStyle n = inlineStyle m \<Longrightarrow> getStyle n p = getStyle m p"
  by (cases n; cases m) auto

lemma map_of_putEntry: "map_of (putEntry k v kvs) q = (if q = k then Some v else map_of kvs q)"
  by (induction kvs) auto

lemma getStyle_setStyle:
  "isElement n \<Longrightarrow> v \<noteq> [] \<Longrightarrow> getStyle (setStyle p v n) q = (if q = p then v else getStyle n q)"
  by (cases n) (auto simp: map_of_putEntry)

lemma removeImageResizeHandles_shell [simp]:
  "attributes (removeImageResizeHandles n) = attributes n"
  "isElement (removeImageResizeHandles n) = isElement n"
  "inlineStyle (removeImageResizeHandles n) = inlineStyle n"
  "tagName (removeImageResizeHandles n) = tagName n"
  "getStyle (removeImageResizeHandles n) p = getStyle n p"
  by (cases n; simp)+

lemma appendChildren_shell [simp]:
  "attributes (appendChildren n ks) = attributes n"
  "isElement (appendChildren n ks) = isElement n"
  "inlineStyle (appendChildren n ks) = inlineStyle n"
  "tagName (appendChildren n ks) = tagName n"
  "getStyle (appendChildren n ks) p = getStyle n p"
  by (cases n; simp)+

lemma removeSelectionStyling_shell [simp]:
  "attributes (removeSelectionStyling n) = attributes n"
  "isElement (removeSelectionStyling n) = isElement n"
  "tagName (removeSelectionStyling n) = tagName n"
  by (simp_all add: removeSelectionStyling_def Let_def)

lemma removeSelectionStyling_style:
  assumes "isElement n"
  shows "getStyle (removeSelectionStyling n) ''outline'' = ''none''"
    and "getStyle (removeSelectionStyling n) ''outline-offset'' = ''0px''"
    and "getStyle (removeSelectionStyling n) ''box-shadow'' = ''none''"
  using assms by (simp_all add: removeSelectionStyling_def Let_def getStyle_setStyle)

lemma removeSelectionStyling_not_styled:
  "isElement n \<Longrightarrow> \<not> selectionStyled (removeSelectionStyling n)"
  by (simp add: selectionStyled_def removeSelectionStyling_style)

lemma selectionStyled_local:
  "selectionStyled (Elem t a s ks) = selectionStyled (Elem t' a' s ks')"
  by (simp add: selectionStyled_def)

lemma styledTagged_local: "styledTagged (Elem t a s ks) = styledTagged (Elem t a s ks')"
  by (simp add: styledTagged_def selectionStyled_def)

lemma cleared_not_styled:
  "n \<in> set (descendants (clearAllSelections ns)) \<Longrightarrow> \<not> styledTagged n"
proof (induction ns arbitrary: n rule: clearAllSelections.induct)
  case 1
  then show ?case by simp
next
  case (2 x ns)
  then show ?case by simp
next
  case (3 t a s ks ns)
  show ?case
  proof (cases "matches (HasAttr ''data-element-id'') (Elem t a s ks)")
    case True
    have el: "isElement (removeSelectionStyling (Elem t a s ks))" by simp
    then obtain t' a' s' ks' where r: "removeSelectionStyling (Elem t a s ks) = Elem t' a' s' ks'"
      by (cases "removeSelectionStyling (Elem t a s ks)") auto
    have "\<not> selectionStyled (Elem t' a' s' ks')"
      using removeSelectionStyling_not_styled[of "Elem t a s ks"] r by simp
    then have ns: "\<not> styledTagged (Elem t' a' s' (clearAllSelections ks'))"
      by (simp add: styledTagged_def selectionStyled_def)
    from "3.prems" True r
    have "n = Elem t' a' s' (clearAllSelections ks')
          \<or> n \<in> set (descendants (clearAllSelections ks'))
          \<or> n \<in> set (descendants (clearAllSelections ns))"
      by auto
    then show ?thesis using ns "3.IH"(1)[OF True r] "3.IH"(3) by blast
  next
    case False
    then have ns: "\<not> styledTagged (Elem t a s (clearAllSelections ks))"
      by (simp add: styledTagged_def)
    from "3.prems" False
    have "n = Elem t a s (clearAllSelections ks)
          \<or> n \<in> set (descendants (clearAllSelections ks))
          \<or> n \<in> set (descendants (clearAllSelections ns))"
      by auto
    then show ?thesis using ns "3.IH"(2)[OF False] "3.IH"(3) by blast
  qed
next
  case (4 x ns)
  then show ?case by simp
qed

lemma removeMatching_preserves:
  assumes loc: "\<And>t a s ks ks'. P (Elem t a s ks) = P (Elem t a s ks')"
  shows "(\<forall>n \<in> set (descendants ns). P n) \<Longrightarrow> \<forall>n \<in> set (descendants (removeMatching sel ns)). P n"
proof (induction sel ns rule: removeMatching.induct)
  case (1 sel)
  then show ?case by simp
next
  case (2 sel x ns)
  then show ?case by simp
next
  case (3 sel t a s ks ns)
  show ?case
  proof (cases "matches sel (Elem t a s ks)")
    case True
    with 3 show ?thesis by (simp del: matches.simps)
  next
    case False
    from "3.prems" have "P (Elem t a s ks)" by simp
    then have "P (Elem t a s (removeMatching sel ks))"
      using loc[of t a s ks "removeMatching sel ks"] by simp
    moreover from "3.prems" have "\<forall>n \<in> set (descendants (removeMatching sel ks)). P n"
      using "3.IH"(2)[OF False] by simp
    moreover from "3.prems" have "\<forall>n \<in> set (descendants (removeMatching sel ns)). P n"
      using "3.IH"(3)[OF False] by simp
    ultimately show ?thesis using False by (auto simp del: matches.simps)
  qed
next
  case (4 sel x ns)
  then show ?case by simp
qed

lemma updateAt_descendants:
  assumes loc: "\<And>t a s ks ks'. S (Elem t a s ks) = S (Elem t a s ks')"
  shows "(j # q, e) \<in> set (walkFrom i ns) \<Longrightarrow> \<forall>n \<in> set (descendants ns). \<not> S n \<Longrightarrow>
     filter S (descendants (updateAt ((j - i) # q) f ns)) = filter S (descendants [f e])"
proof (induction i ns arbitrary: j q rule: walkFrom.induct)
  case (1 i)
  then show ?case by simp
next
  case (2 i x ns)
  from "2.prems"(1) have m: "(j # q, e) \<in> set (walkFrom (Suc i) ns)" by simp
  then have ge: "Suc i \<le> j" using walkFrom_head by fastforce
  then have "j - i - 1 = j - Suc i" "j - i \<noteq> 0" by auto
  with "2.IH"[OF m] "2.prems"(2) show ?case by simp
next
  case (3 i t a s ks ns)
  from "3.prems"(1) consider
      (self) "j = i" "q = []" "e = Elem t a s ks"
    | (inside) q' where "j = i" "q = q'" "(q', e) \<in> set (walkFrom 0 ks)"
    | (later) "(j # q, e) \<in> set (walkFrom (Suc i) ns)"
    by auto
  then show ?case
  proof cases
    case self
    have "descendants (f (Elem t a s ks) # ns) = descendants [f (Elem t a s ks)] @ descendants ns"
      using descendants_append[of "[f (Elem t a s ks)]" ns] by simp
    moreover have "filter S (descendants ns) = []" using "3.prems"(2) by (auto simp: filter_empty_conv)
    ultimately show ?thesis using self by simp
  next
    case inside
    then obtain j' q'' where q': "q' = j' # q''" using walkFrom_head by blast
    have k: "\<forall>n \<in> set (descendants ks). \<not> S n" using "3.prems"(2) by auto
    have ih: "filter S (descendants (updateAt ((j' - 0) # q'') f ks)) = filter S (descendants [f e])"
      using "3.IH"(1)[of j' q''] inside q' k by simp
    have "\<not> S (Elem t a s (updateAt q' f ks))"
      using "3.prems"(2) loc[of t a s ks "updateAt q' f ks"] by simp
    moreover have "filter S (descendants ns) = []" using "3.prems"(2) by (auto simp: filter_empty_conv)
    ultimately show ?thesis using inside q' ih by simp
  next
    case later
    then have ge: "Suc i \<le> j" using walkFrom_head by fastforce
    then have a: "j - i - 1 = j - Suc i" "j - i \<noteq> 0" by auto
    have "\<not> S (Elem t a s ks)" "\<forall>n \<in> set (descendants ks). \<not> S n" "\<forall>n \<in> set (descendants ns). \<not> S n"
      using "3.prems"(2) by auto
    with "3.IH"(2)[OF later] a show ?thesis by (simp add: filter_empty_conv)
  qed
next
  case (4 i x ns)
  from "4.prems"(1) have m: "(j # q, e) \<in> set (walkFrom (Suc i) ns)" by simp
  then have ge: "Suc i \<le> j" using walkFrom_head by fastforce
  then have "j - i - 1 = j - Suc i" "j - i \<noteq> 0" by auto
  with "4.IH"[OF m] "4.prems"(2) show ?case by simp
qed

lemma querySelector_walk:
  "querySelector sel ns = Some (p, e) \<Longrightarrow> (p, e) \<in> set (walkFrom 0 ns) \<and> matches sel e"
proof -
  assume "querySelector sel ns = Some (p, e)"
  then obtain rest where "filter (\<lambda>pn. matches sel (snd pn)) (walkFrom 0 ns) = (p, e) # rest"
    by (auto simp: querySelector_def querySelectorAll_def split: list.splits)
  then have "(p, e) \<in> set (filter (\<lambda>pn. matches sel (snd pn)) (walkFrom 0 ns))" by simp
  then show ?thesis by simp
qed

lemma querySelector_None:
  "querySelector sel ns = None \<longleftrightarrow> (\<forall>n \<in> set (descendants ns). \<not> matches sel n)"
proof -
  have "querySelector sel ns = None \<longleftrightarrow> map snd (querySelectorAll sel ns) = []"
    by (simp add: querySelector_def split: list.splits)
  then show ?thesis by (simp add: querySelectorAll_nodes filter_empty_conv)
qed

subsection \<open>Clearing and marking\<close>

lemma descendants_isElement: "n \<in> set (descendants ns) \<Longrightarrow> isElement n"
  by (induction ns rule: descendants.induct) auto

lemma matches_attr:
  "isElement n \<Longrightarrow> matches (AttrEq k v) n = (map_of (attributes n) k = Some v)"
  "isElement n \<Longrightarrow> matches (HasAttr k) n = (map_of (attributes n) k \<noteq> None)"
  by (cases n; simp)+

lemma removeMatching_attributes:
  "n \<in> set (descendants (removeMatching sel ns)) \<Longrightarrow>
     \<exists>m \<in> set (descendants ns). attributes m = attributes n"
proof (induction sel ns arbitrary: n rule: removeMatching.induct)
  case (1 sel)
  then show ?case by simp
next
  case (2 sel x ns)
  then show ?case by simp
next
  case (3 sel t a s ks ns)
  show ?case
  proof (cases "matches sel (Elem t a s ks)")
    case True
    with 3 show ?thesis by (auto simp del: matches.simps)
  next
    case False
    with "3.prems" have "n = Elem t a s (removeMatching sel ks)
        \<or> n \<in> set (descendants (removeMatching sel ks))
        \<or> n \<in> set (descendants (removeMatching sel ns))"
      by (auto simp del: matches.simps)
    then show ?thesis using "3.IH"(2)[OF False] "3.IH"(3)[OF False] by fastforce
  qed
next
  case (4 sel x ns)
  then show ?case by simp
qed

lemma removeSelectionStyling_children:
  "childNodes (removeSelectionStyling n) = childNodes n
   \<or> childNodes (removeSelectionStyling n) = removeMatching (HasClass ''image-resize-handle'') (childNodes n)"
  by (cases n) (auto simp: removeSelectionStyling_def Let_def childNodes_setStyle split: if_splits)

lemma cleared_attributes:
  "n \<in> set (descendants (clearAllSelections ns)) \<Longrightarrow>
     \<exists>m \<in> set (descendants ns). attributes m = attributes n"
proof (induction ns arbitrary: n rule: clearAllSelections.induct)
  case 1
  then show ?case by simp
next
  case (2 x ns)
  then show ?case by simp
next
  case (3 t a s ks ns)
  show ?case
  proof (cases "matches (HasAttr ''data-element-id'') (Elem t a s ks)")
    case True
    have "isElement (removeSelectionStyling (Elem t a s ks))" by simp
    then obtain t' a' s' ks' where r: "removeSelectionStyling (Elem t a s ks) = Elem t' a' s' ks'"
      by (cases "removeSelectionStyling (Elem t a s ks)") auto
    have a': "a' = a" using removeSelectionStyling_shell(1)[of "Elem t a s ks"] r by simp
    have k': "ks' = ks \<or> ks' = removeMatching (HasClass ''image-resize-handle'') ks"
      using removeSelectionStyling_children[of "Elem t a s ks"] r by simp
    from "3.prems" True r
    consider "n = Elem t' a' s' (clearAllSelections ks')"
      | "n \<in> set (descendants (clearAllSelections ks'))"
      | "n \<in> set (descendants (clearAllSelections ns))"
      by auto
    then show ?thesis
    proof cases
      case 1
      then show ?thesis using a' by auto
    next
      case 2
      then obtain m where m: "m \<in> set (descendants ks')" "attributes m = attributes n"
        using "3.IH"(1)[OF True r] by blast
      then obtain m' where "m' \<in> set (descendants ks)" "attributes m' = attributes m"
        using k' removeMatching_attributes[of m "HasClass ''image-resize-handle''" ks] by auto
      with m show ?thesis by auto
    next
      case 3
      then show ?thesis using "3.IH"(3) by auto
    qed
  next
    case False
    from "3.prems" False
    consider "n = Elem t a s (clearAllSelections ks)"
      | "n \<in> set (descendants (clearAllSelections ks))"
      | "n \<in> set (descendants (clearAllSelections ns))"
      by auto
    then show ?thesis
    proof cases
      case 1
      then show ?thesis by auto
    next
      case 2
      then show ?thesis using "3.IH"(2)[OF False] by auto
    next
      case 3
      then show ?thesis using "3.IH"(3) by auto
    qed
  qed
next
  case (4 x ns)
  then show ?case by simp
qed

lemma cleared_not_found:
  assumes "querySelector (AttrEq k v) c = None"
  shows "querySelector (AttrEq k v) (clearAllSelections c) = None"
proof -
  have "\<not> matches (AttrEq k v) n" if n: "n \<in> set (descendants (clearAllSelections c))" for n
  proof -
    from n obtain m where m: "m \<in> set (descendants c)" "attributes m = attributes n"
      using cleared_attributes by blast
    from m(1) assms have "\<not> matches (AttrEq k v) m" by (simp add: querySelector_None)
    moreover have "isElement m" "isElement n" using m(1) n descendants_isElement by blast+
    ultimately show ?thesis using m(2) by (simp add: matches_attr)
  qed
  then show ?thesis by (simp add: querySelector_None)
qed

lemma resizeHandles_plain: "n \<in> set (descendants resizeHandles) \<Longrightarrow> \<not> styledTagged n"
  by (auto simp: resizeHandles_def resizeHandle_def styledTagged_def)

lemma isImage_setStyle: "isImage (setStyle p v n) = isImage n"
  by (cases n) (auto simp: isImage_def)

lemma applySelectionStyling_shell:
  "attributes (applySelectionStyling n) = attributes n"
  "isElement (applySelectionStyling n) = isElement n"
  by (simp_all add: applySelectionStyling_def addImageResizeHandles_def Let_def)

lemma applySelectionStyling_styled:
  assumes "isElement n"
  shows "getStyle (applySelectionStyling n) ''outline'' = ''2px solid #f97316''"
    and "getStyle (applySelectionStyling n) ''outline-offset'' = ''2px''"
    and "getStyle (applySelectionStyling n) ''box-shadow'' = ''0 0 0 4px rgba(249, 115, 22, 0.1)''"
  using assms
  by (simp_all add: applySelectionStyling_def addImageResizeHandles_def Let_def getStyle_setStyle)

lemma childNodes_appendChildren: "isElement n \<Longrightarrow> childNodes (appendChildren n ks) = childNodes n @ ks"
  by (cases n) auto

lemma childNodes_removeHandles:
  "childNodes (removeImageResizeHandles n) = removeMatching (HasClass ''image-resize-handle'') (childNodes n)"
  by (cases n) auto

lemma applySelectionStyling_children:
  "isElement n \<Longrightarrow>
   childNodes (applySelectionStyling n) = childNodes n
   \<or> childNodes (applySelectionStyling n)
       = removeMatching (HasClass ''image-resize-handle'') (childNodes n) @ resizeHandles"
  by (simp add: applySelectionStyling_def addImageResizeHandles_def Let_def childNodes_setStyle
      childNodes_appendChildren childNodes_removeHandles)

lemma selected_alone:
  assumes e: "e \<in> set (descendants c)" and tagged: "matches (HasAttr ''data-element-id'') e"
    and clean: "\<forall>n \<in> set (descendants c). \<not> styledTagged n"
  shows "filter styledTagged (descendants [applySelectionStyling e]) = [applySelectionStyling e]"
proof -
  let ?f = "applySelectionStyling e"
  have el: "isElement e" using e by (rule descendants_isElement)
  then have elf: "isElement ?f" by (simp add: applySelectionStyling_shell)
  then obtain t a s ks where f: "?f = Elem t a s ks" by (cases ?f) auto
  have "matches (HasAttr ''data-element-id'') ?f"
    using tagged el elf by (simp add: matches_attr applySelectionStyling_shell)
  moreover have "selectionStyled ?f"
    using el by (simp add: selectionStyled_def applySelectionStyling_styled)
  ultimately have st: "styledTagged ?f" by (simp add: styledTagged_def)
  have kids: "\<forall>n \<in> set (descendants (childNodes e)). \<not> styledTagged n"
    using descendants_children[OF e] clean by blast
  have loc: "\<And>t a s ks ks'. (\<not> styledTagged (Elem t a s ks)) = (\<not> styledTagged (Elem t a s ks'))"
    using styledTagged_local by simp
  have rm: "\<forall>n \<in> set (descendants (removeMatching (HasClass ''image-resize-handle'') (childNodes e))).
      \<not> styledTagged n"
    using removeMatching_preserves[of "\<lambda>n. \<not> styledTagged n", OF loc kids] .
  have "\<forall>n \<in> set (descendants (childNodes ?f)). \<not> styledTagged n"
    using applySelectionStyling_children[OF el] kids rm resizeHandles_plain
    by (auto simp: descendants_append)
  then have "filter styledTagged (descendants ks) = []" using f by (simp add: filter_empty_conv)
  with st f show ?thesis by simp
qed

subsection \<open>Selecting\<close>

lemma styledElements_alt: "styledElements c = filter styledTagged (descendants c)"
proof -
  have "filter selectionStyled (filter (matches (HasAttr ''data-element-id'')) (descendants c))
        = filter styledTagged (descendants c)"
    unfolding filter_filter by (rule filter_cong) (auto simp: styledTagged_def)
  then show ?thesis unfolding styledElements_def querySelectorAll_nodes .
qed

lemma cleared_styledElements: "styledElements (clearAllSelections c) = []"
  using cleared_not_styled by (auto simp: styledElements_alt filter_empty_conv)

lemma querySelectorById_plain:
  "plainIdentifier i \<Longrightarrow>
   querySelectorById pf i c = Returns (querySelector (AttrEq ''data-element-id'' i) c)"
  by (simp add: querySelectorById_def idSelector_def)

lemma selectElement_null:
  "selectElement pf None (Some c) sel0 =
     (Returns (), Some (clearAllSelections c), \<lparr>selectedElementId = None, selectedElement = None\<rparr>)"
  by (simp add: selectElement_def clearAllVisualSelections_def)

lemma selectElement_empty:
  "selectElement pf (Some []) (Some c) sel0 =
     (Returns (), Some (clearAllSelections c), \<lparr>selectedElementId = Some [], selectedElement = None\<rparr>)"
  by (simp add: selectElement_def clearAllVisualSelections_def)

lemma selectElement_not_found:
  "plainIdentifier i \<Longrightarrow> querySelector (AttrEq ''data-element-id'' i) c = None \<Longrightarrow>
   selectElement pf (Some i) (Some c) sel0 =
     (Returns (), Some (clearAllSelections c), \<lparr>selectedElementId = Some i, selectedElement = None\<rparr>)"
  by (simp add: selectElement_def clearAllVisualSelections_def cleared_not_found Let_def
      querySelectorById_plain)

lemma selectElement_found:
  "plainIdentifier i \<Longrightarrow> i \<noteq> [] \<Longrightarrow>
   querySelector (AttrEq ''data-element-id'' i) (clearAllSelections c) = Some (p, e) \<Longrightarrow>
   selectElement pf (Some i) (Some c) sel0 =
     (Returns (), Some (updateAt p applySelectionStyling (clearAllSelections c)),
      \<lparr>selectedElementId = Some i, selectedElement = Some p\<rparr>)"
  by (simp add: selectElement_def clearAllVisualSelections_def Let_def querySelectorById_plain)

lemma selectElement_rejected:
  "i \<noteq> [] \<Longrightarrow> idSelector pf i = None \<Longrightarrow>
   selectElement pf (Some i) (Some c) sel0 =
     (Throws ''SyntaxError'', Some (clearAllSelections c), sel0)"
  by (simp add: selectElement_def clearAllVisualSelections_def Let_def querySelectorById_def)

lemma found_styledElements:
  assumes q: "querySelector (AttrEq ''data-element-id'' i) (clearAllSelections c) = Some (p, e)"
  shows "styledElements (updateAt p applySelectionStyling (clearAllSelections c))
           = [applySelectionStyling e]"
    and "getAttribute (applySelectionStyling e) ''data-element-id'' = Some i"
proof -
  let ?c1 = "clearAllSelections c"
  from q have w: "(p, e) \<in> set (walkFrom 0 ?c1)" and m: "matches (AttrEq ''data-element-id'' i) e"
    using querySelector_walk by blast+
  from w obtain j r where p: "p = j # r" using walkFrom_head by blast
  have ed: "e \<in> set (descendants ?c1)"
    using w walkFrom_nodes[of 0 ?c1] by (metis image_eqI set_map snd_conv)
  then have el: "isElement e" by (rule descendants_isElement)
  have tagged: "matches (HasAttr ''data-element-id'') e" using m el by (simp add: matches_attr)
  have clean: "\<forall>n \<in> set (descendants ?c1). \<not> styledTagged n" using cleared_not_styled by blast
  have "filter styledTagged (descendants (updateAt ((j - 0) # r) applySelectionStyling ?c1))
        = filter styledTagged (descendants [applySelectionStyling e])"
    using updateAt_descendants[of styledTagged j r e 0 ?c1 applySelectionStyling]
      styledTagged_local w p clean by blast
  also have "\<dots> = [applySelectionStyling e]" using selected_alone[OF ed tagged clean] .
  finally show "styledElements (updateAt p applySelectionStyling ?c1) = [applySelectionStyling e]"
    using p by (simp add: styledElements_alt)
  have "isElement (applySelectionStyling e)" using el by (simp add: applySelectionStyling_shell)
  then obtain t a s ks where f: "applySelectionStyling e = Elem t a s ks"
    by (cases "applySelectionStyling e") auto
  have "attributes (applySelectionStyling e) = attributes e" by (simp add: applySelectionStyling_shell)
  with f m el show "getAttribute (applySelectionStyling e) ''data-element-id'' = Some i"
    by (cases e) auto
qed

lemma sample_ghost: "querySelector (AttrEq ''data-element-id'' ''ghost'') sampleCanvas = None"
  by (simp add: sampleCanvas_def sampleFigure_def querySelector_def querySelectorAll_def)

lemma sample_figure_found:
  "querySelector (AttrEq ''data-element-id'' ''b'') (clearAllSelections sampleCanvas)
     = Some ([1], removeSelectionStyling sampleFigure)"
  by (simp add: sampleCanvas_def sampleFigure_def querySelector_def querySelectorAll_def
      removeSelectionStyling_def isImage_def glow_def classList_def isAsciiWhitespace_def
      toLowerCase_def upperLetters_def lowerLetters_def)

lemma sample_all_styled: "length (styledElements sampleCanvas) = 3"
  by (simp add: sampleCanvas_def sampleFigure_def styledElements_def querySelectorAll_def
      selectionStyled_def glow_def)

text \<open>
  For an identifier that the selector grammar reads as it stands (and for null),
  \<^verbatim>\<open>selectElement\<close> returns and, whatever styling the container had before, at most
  one tagged element carries selection styling afterwards; every element that carries it
  has the identity attribute \<open>id\<close>; none carries it when \<open>id\<close> is null or no element
  with that identity exists. When \<open>id\<close> is a non-empty string that the cleared container
  holds, the styled elements are exactly the first element with that identity, restyled.
\<close>

lemma selection_exclusive:
  assumes plain: "\<forall>i. elementId = Some i \<longrightarrow> plainIdentifier i"
  shows "\<exists>c'. fst (selectElement pf elementId (Some c) sel0) = Returns ()
     \<and> fst (snd (selectElement pf elementId (Some c) sel0)) = Some c'
     \<and> length (styledElements c') \<le> 1
     \<and> (\<forall>n \<in> set (styledElements c'). getAttribute n ''data-element-id'' = elementId)
     \<and> ((elementId = None
          \<or> (\<exists>i. elementId = Some i \<and> querySelector (AttrEq ''data-element-id'' i) c = None))
         \<longrightarrow> styledElements c' = [])
     \<and> (\<forall>i p e. elementId = Some i \<and> i \<noteq> []
           \<and> querySelector (AttrEq ''data-element-id'' i) (clearAllSelections c) = Some (p, e)
         \<longrightarrow> styledElements c' = [applySelectionStyling e])"
proof (cases elementId)
  case None
  then show ?thesis by (simp add: selectElement_null cleared_styledElements)
next
  case (Some i)
  with plain have pl: "plainIdentifier i" by simp
  show ?thesis
  proof (cases "i = []")
    case True
    with Some show ?thesis by (simp add: selectElement_empty cleared_styledElements)
  next
    case ne: False
    show ?thesis
    proof (cases "querySelector (AttrEq ''data-element-id'' i) (clearAllSelections c)")
      case None
      with Some ne pl show ?thesis
        by (simp add: selectElement_def clearAllVisualSelections_def cleared_styledElements Let_def
            querySelectorById_plain)
    next
      case (Some pe)
      obtain p e where pe: "pe = (p, e)" by (cases pe)
      have q: "querySelector (AttrEq ''data-element-id'' i) (clearAllSelections c) = Some (p, e)"
        using Some pe by simp
      obtain p0 e0 where nf: "querySelector (AttrEq ''data-element-id'' i) c = Some (p0, e0)"
        using q cleared_not_found[of "''data-element-id''" i c]
        by (cases "querySelector (AttrEq ''data-element-id'' i) c") auto
      show ?thesis
        using \<open>elementId = Some i\<close> ne q nf selectElement_found[OF pl ne q] found_styledElements[OF q]
        by auto
    qed
  qed
qed

text \<open>
  Claim C3 does not hold of the code for every identifier. The identifier is spliced into
  the selector without escaping, so an identifier with a quotation mark changes the
  selector. With the identifier \<^verbatim>\<open>zz"],[data-element-id="a\<close>, which no element of the
  sample canvas has, the lookup reads a selector list and finds the heading, whose
  identity is \<^verbatim>\<open>a\<close>: the heading carries the selection styling and is recorded as
  the selected element. When a paragraph with that identifier is present, it is again the
  heading that is styled, not the paragraph. With the identifier \<^verbatim>\<open>a"b\<close> the
  selector is rejected: \<^verbatim>\<open>selectElement\<close> throws after the sweep and the selection
  state is not replaced.
\<close>

theorem crafted_identifier_styles_another_element:
  "querySelector (AttrEq ''data-element-id'' craftedId) sampleCanvas = None
   \<and> fst (selectElement sampleBrowser (Some craftedId) (Some sampleCanvas) noSelection) = Returns ()
   \<and> map (\<lambda>n. getAttribute n ''data-element-id'')
         (styledElements
            (the (fst (snd (selectElement sampleBrowser (Some craftedId) (Some sampleCanvas) noSelection)))))
       = [Some ''a'']
   \<and> snd (snd (selectElement sampleBrowser (Some craftedId) (Some sampleCanvas) noSelection))
       = \<lparr>selectedElementId = Some craftedId, selectedElement = Some [0]\<rparr>
   \<and> map fst (querySelectorAll (AttrEq ''data-element-id'' craftedId) craftedCanvas) = [[3]]
   \<and> map (\<lambda>n. getAttribute n ''data-element-id'')
         (styledElements
            (the (fst (snd (selectElement sampleBrowser (Some craftedId) (Some craftedCanvas) noSelection)))))
       = [Some ''a'']
   \<and> selectElement sampleBrowser (Some quotedId) (Some sampleCanvas) noSelection
       = (Throws ''SyntaxError'', Some (clearAllSelections sampleCanvas), noSelection)"
  by code_simp

subsection \<open>A stale identifier\<close>

text \<open>
  Claim C4, as amended. For an identifier that the selector grammar reads as it stands (no
  quotation mark, backslash, line break or null character) and that matches no element of
  the container, \<^verbatim>\<open>selectElement\<close> clears all visual selection, styles no element and
  leaves the element reference null, so that \<^verbatim>\<open>getSelectedElement\<close> returns null; the
  state records the identifier it was given in \<open>selectedElementId\<close>.
\<close>

theorem stale_id_selects_nothing:
  assumes "plainIdentifier i"
    and "querySelector (AttrEq ''data-element-id'' i) c = None"
  shows "selectElement pf (Some i) (Some c) sel0 =
           (Returns (), Some (clearAllSelections c),
            \<lparr>selectedElementId = Some i, selectedElement = None\<rparr>)
         \<and> styledElements (clearAllSelections c) = []
         \<and> getSelectedElement pf (Some (clearAllSelections c))
              \<lparr>selectedElementId = Some i, selectedElement = None\<rparr> = Returns None"
  using assms
  by (simp add: selectElement_not_found cleared_styledElements getSelectedElement_def
      cleared_not_found querySelectorById_plain)

theorem stale_id_selects_nothing_witness:
  "plainIdentifier ''ghost''
   \<and> querySelector (AttrEq ''data-element-id'' ''ghost'') sampleCanvas = None
   \<and> selectElement sampleBrowser (Some ''ghost'') (Some sampleCanvas) noSelection =
       (Returns (), Some (clearAllSelections sampleCanvas),
        \<lparr>selectedElementId = Some ''ghost'', selectedElement = None\<rparr>)
   \<and> styledElements (clearAllSelections sampleCanvas) = []
   \<and> getSelectedElement sampleBrowser (Some (clearAllSelections sampleCanvas))
        \<lparr>selectedElementId = Some ''ghost'', selectedElement = None\<rparr> = Returns None"
proof (intro conjI)
  have pl: "plainIdentifier ''ghost''" by (simp add: plainIdentifier_def)
  note t = stale_id_selects_nothing[OF pl sample_ghost, of sampleBrowser noSelection]
  show "plainIdentifier ''ghost''" by (rule pl)
  show "querySelector (AttrEq ''data-element-id'' ''ghost'') sampleCanvas = None"
    by (rule sample_ghost)
  show "selectElement sampleBrowser (Some ''ghost'') (Some sampleCanvas) noSelection =
       (Returns (), Some (clearAllSelections sampleCanvas),
        \<lparr>selectedElementId = Some ''ghost'', selectedElement = None\<rparr>)"
    by (rule t[THEN conjunct1])
  show "styledElements (clearAllSelections sampleCanvas) = []"
    by (rule t[THEN conjunct2, THEN conjunct1])
  show "getSelectedElement sampleBrowser (Some (clearAllSelections sampleCanvas))
        \<lparr>selectedElementId = Some ''ghost'', selectedElement = None\<rparr> = Returns None"
    by (rule t[THEN conjunct2, THEN conjunct2])
qed

text \<open>
  Claim C4 as stated fails: selecting the identifier \<^verbatim>\<open>ghost\<close>, which no element of
  the sample canvas has, leaves \<open>selectedElementId\<close> at \<^verbatim>\<open>ghost\<close>, not at null.
\<close>

theorem stale_id_recorded_counterexample:
  "querySelector (AttrEq ''data-element-id'' ''ghost'') sampleCanvas = None
   \<and> selectedElementId
         (snd (snd (selectElement sampleBrowser (Some ''ghost'') (Some sampleCanvas) noSelection)))
       = Some ''ghost''
   \<and> selectedElementId
         (snd (snd (selectElement sampleBrowser (Some ''ghost'') (Some sampleCanvas) noSelection)))
       \<noteq> None"
proof -
  have pl: "plainIdentifier ''ghost''" by (simp add: plainIdentifier_def)
  have "snd (snd (selectElement sampleBrowser (Some ''ghost'') (Some sampleCanvas) noSelection))
        = \<lparr>selectedElementId = Some ''ghost'', selectedElement = None\<rparr>"
    by (simp add: selectElement_not_found[OF pl sample_ghost])
  then show ?thesis using sample_ghost by simp
qed

section \<open>Properties of the drag and drop engine\<close>

subsection \<open>The insertion point\<close>

lemma scanStep_first:
  "scanStep pf Y (ib, None) r = (chosen pf Y r, Some (distanceTo pf Y r))"
  by (cases r) (simp add: scanStep_def chosen_def distanceTo_def elementMiddle_def Let_def)

lemma scanStep_next:
  "scanStep pf Y (ib, Some m) r =
     (if distanceTo pf Y r < m then (chosen pf Y r, Some (distanceTo pf Y r)) else (ib, Some m))"
  by (cases r) (simp add: scanStep_def chosen_def distanceTo_def elementMiddle_def Let_def)

lemma scan_invariant:
  "rs \<noteq> [] \<Longrightarrow>
   \<exists>i < length rs.
     foldl (scanStep pf Y) (None, None) rs = (chosen pf Y (rs ! i), Some (distanceTo pf Y (rs ! i)))
     \<and> (\<forall>j < length rs. distanceTo pf Y (rs ! i) \<le> distanceTo pf Y (rs ! j))
     \<and> (\<forall>j < i. distanceTo pf Y (rs ! i) < distanceTo pf Y (rs ! j))"
proof (induction rs rule: rev_induct)
  case Nil
  then show ?case by simp
next
  case (snoc x xs)
  show ?case
  proof (cases "xs = []")
    case True
    then show ?thesis by (simp add: scanStep_first)
  next
    case False
    from snoc.IH[OF False] obtain i where i: "i < length xs"
      and st: "foldl (scanStep pf Y) (None, None) xs = (chosen pf Y (xs ! i), Some (distanceTo pf Y (xs ! i)))"
      and mn: "\<forall>j < length xs. distanceTo pf Y (xs ! i) \<le> distanceTo pf Y (xs ! j)"
      and fs: "\<forall>j < i. distanceTo pf Y (xs ! i) < distanceTo pf Y (xs ! j)"
      by blast
    show ?thesis
    proof (cases "distanceTo pf Y x < distanceTo pf Y (xs ! i)")
      case True
      have a: "foldl (scanStep pf Y) (None, None) (xs @ [x]) = (chosen pf Y x, Some (distanceTo pf Y x))"
        using st True by (simp add: scanStep_next)
      have b: "\<forall>j < length (xs @ [x]). distanceTo pf Y x \<le> distanceTo pf Y ((xs @ [x]) ! j)"
      proof (intro allI impI)
        fix j assume "j < length (xs @ [x])"
        then consider "j < length xs" | "j = length xs" by fastforce
        then show "distanceTo pf Y x \<le> distanceTo pf Y ((xs @ [x]) ! j)"
        proof cases
          case 1
          with mn True show ?thesis by (simp add: nth_append) (meson less_le_trans less_imp_le)
        next
          case 2
          then show ?thesis by simp
        qed
      qed
      have c: "\<forall>j < length xs. distanceTo pf Y x < distanceTo pf Y ((xs @ [x]) ! j)"
        using mn True by (simp add: nth_append) (meson less_le_trans)
      show ?thesis
        apply (rule exI[of _ "length xs"])
        using a b c by simp
    next
      case False
      have a: "foldl (scanStep pf Y) (None, None) (xs @ [x])
               = (chosen pf Y ((xs @ [x]) ! i), Some (distanceTo pf Y ((xs @ [x]) ! i)))"
        using st False i by (simp add: scanStep_next nth_append)
      have b: "\<forall>j < length (xs @ [x]). distanceTo pf Y ((xs @ [x]) ! i) \<le> distanceTo pf Y ((xs @ [x]) ! j)"
      proof (intro allI impI)
        fix j assume "j < length (xs @ [x])"
        then consider "j < length xs" | "j = length xs" by fastforce
        then show "distanceTo pf Y ((xs @ [x]) ! i) \<le> distanceTo pf Y ((xs @ [x]) ! j)"
        proof cases
          case 1
          with mn i show ?thesis by (simp add: nth_append)
        next
          case 2
          with False i show ?thesis by (simp add: nth_append)
        qed
      qed
      have c: "\<forall>j < i. distanceTo pf Y ((xs @ [x]) ! i) < distanceTo pf Y ((xs @ [x]) ! j)"
        using fs i by (simp add: nth_append)
      show ?thesis
        apply (rule exI[of _ i])
        using a b c i by simp
    qed
  qed
qed

lemma sample_list_scan:
  "map fst (querySelectorAll (HasAttr ''data-element-id'') sampleList) = [[0], [0, 0], [0, 1], [1]]"
  by (simp add: sampleList_def querySelectorAll_def)

text \<open>
  For every pointer coordinate and every finite sequence of scanned elements with their
  rectangles, \<^verbatim>\<open>findInsertPosition\<close> settles on the element whose computed distance
  between pointer and vertical midpoint is smallest, the first such element in the order of
  the scan; it returns that element when the pointer is above the computed midpoint and
  null (append at the end of the container) otherwise; it returns null when nothing is
  scanned or the container is not mounted.
\<close>

lemma nearest_insertion_point:
  "findInsertPositionIn pf dropY [] = (None :: 'a option)
   \<and> (rs \<noteq> [] \<longrightarrow>
        (\<exists>i < length rs.
           (\<forall>j < length rs. distanceTo pf dropY (rs ! i) \<le> distanceTo pf dropY (rs ! j))
           \<and> (\<forall>j < i. distanceTo pf dropY (rs ! i) < distanceTo pf dropY (rs ! j))
           \<and> findInsertPositionIn pf dropY rs
               = (if dropY < elementMiddle pf (rs ! i) then Some (fst (rs ! i)) else None)))
   \<and> (contentRef w = None \<longrightarrow> findInsertPosition pf e w = None)
   \<and> (\<forall>c. contentRef w = Some c \<longrightarrow>
        findInsertPosition pf e w =
          findInsertPositionIn pf (clientY e)
            (map (\<lambda>pn. (fst pn, getBoundingClientRect pf (fst pn)))
               (querySelectorAll (HasAttr ''data-element-id'') c)))"
proof (intro conjI impI allI)
  show "findInsertPositionIn pf dropY [] = (None :: 'a option)"
    by (simp add: findInsertPositionIn_def)
next
  assume "rs \<noteq> []"
  from scan_invariant[OF this, of pf dropY] obtain i where "i < length rs"
    "foldl (scanStep pf dropY) (None, None) rs
       = (chosen pf dropY (rs ! i), Some (distanceTo pf dropY (rs ! i)))"
    "\<forall>j < length rs. distanceTo pf dropY (rs ! i) \<le> distanceTo pf dropY (rs ! j)"
    "\<forall>j < i. distanceTo pf dropY (rs ! i) < distanceTo pf dropY (rs ! j)"
    by blast
  then show "\<exists>i < length rs.
           (\<forall>j < length rs. distanceTo pf dropY (rs ! i) \<le> distanceTo pf dropY (rs ! j))
           \<and> (\<forall>j < i. distanceTo pf dropY (rs ! i) < distanceTo pf dropY (rs ! j))
           \<and> findInsertPositionIn pf dropY rs
               = (if dropY < elementMiddle pf (rs ! i) then Some (fst (rs ! i)) else None)"
    by (auto simp: findInsertPositionIn_def chosen_def)
next
  assume "contentRef w = None"
  then show "findInsertPosition pf e w = None" by (simp add: findInsertPosition_def)
next
  fix c assume "contentRef w = Some c"
  then show "findInsertPosition pf e w =
          findInsertPositionIn pf (clientY e)
            (map (\<lambda>pn. (fst pn, getBoundingClientRect pf (fst pn)))
               (querySelectorAll (HasAttr ''data-element-id'') c))"
    by (simp add: findInsertPosition_def Let_def)
qed

text \<open>
  Claim C5 does not hold of the code. The scan is not limited to the direct children of the
  container: \<^verbatim>\<open>querySelectorAll\<close> yields every tagged descendant, and the normalizer
  tags nested elements. On the sample list the items are scanned with the list itself, and
  a pointer at 25 yields the first item, a nested element, where a scan of the two top-level
  elements would yield the list. The result is only ever used as the reference child of
  \<^verbatim>\<open>insertBefore\<close> on the container, which rejects a node that is not its child: the
  drop that computes this insertion point throws, with the dragged paragraph already
  removed.
\<close>

theorem nested_element_chosen_as_insertion_point:
  "map fst (querySelectorAll (HasAttr ''data-element-id'') sampleList) = [[0], [0, 0], [0, 1], [1]]
   \<and> findInsertPosition sampleBrowser (dropAt 25 ''existing:para'') (worldOf sampleList ''para'')
       = Some [0, 0]
   \<and> findInsertPositionIn sampleBrowser 25 [([0 :: nat], 0, 100), ([1], 100, 100)] = Some [0]
   \<and> fst (handleDrop sampleBrowser 0 sampleLibrary (dropAt 25 ''existing:para'')
         (worldOf sampleList ''para''))
       = Throws ''NotFoundError''
   \<and> contentRef (snd (handleDrop sampleBrowser 0 sampleLibrary (dropAt 25 ''existing:para'')
         (worldOf sampleList ''para'')))
       = Some [hd sampleList]"
  by code_simp

subsection \<open>Reordering to the same place\<close>

lemma sample_heading_found:
  "querySelector (AttrEq ''data-element-id'' ''a'') sampleCanvas = Some ([0], hd sampleCanvas)"
  by (simp add: sampleCanvas_def sampleFigure_def querySelector_def querySelectorAll_def)

lemma sample_heading_sibling: "Some [1] = nextElementSibling sampleCanvas [0]"
  by (simp add: sampleCanvas_def sampleFigure_def nextElementSibling_def)

text \<open>
  When the identifier is one that the selector grammar reads as it stands, the element
  exists in the container and the insertion point is its current next element sibling
  (null for the last element), \<^verbatim>\<open>reorderElement\<close> returns false and leaves the world
  as it was: the container is not written (the element is not detached, no style changes),
  no callback is called and no timer is set.
\<close>

lemma reorder_same_position:
  "plainIdentifier elementId \<Longrightarrow>
   contentRef w = Some c \<Longrightarrow>
   querySelector (AttrEq ''data-element-id'' elementId) c = Some (p, element) \<Longrightarrow>
   insertBefore = nextElementSibling c p \<Longrightarrow>
   reorderElement pf elementId insertBefore w = (Returns False, w)"
  by (simp add: reorderElement_def querySelectorById_plain)

lemma reorder_same_position_sample:
  "reorderElement sampleBrowser ''a'' (Some [1]) (worldOf sampleCanvas ''a'')
     = (Returns False, worldOf sampleCanvas ''a'')"
proof -
  have pl: "plainIdentifier ''a''" by (simp add: plainIdentifier_def)
  have c: "contentRef (worldOf sampleCanvas ''a'') = Some sampleCanvas" by (simp add: worldOf_def)
  show ?thesis
    by (rule reorder_same_position[OF pl c sample_heading_found sample_heading_sibling])
qed

text \<open>
  Claim C6 does not hold of the code for every element. The identifier is spliced into the
  selector without escaping: for the first paragraph of the canvas below, whose identifier
  is \<^verbatim>\<open>a"b\<close>, and its own next sibling as insertion point, the selector is rejected
  and \<^verbatim>\<open>reorderElement\<close> throws a \<^verbatim>\<open>SyntaxError\<close> before it reaches the test of
  the position, where the claim has it return false. Nothing is written.
\<close>

theorem reorder_quoted_identifier_throws:
  "querySelector (AttrEq ''data-element-id'' quotedId) quotedCanvas = Some ([0], hd quotedCanvas)
   \<and> nextElementSibling quotedCanvas [0] = Some [1]
   \<and> reorderElement sampleBrowser quotedId (Some [1]) (worldOf quotedCanvas quotedId)
       = (Throws ''SyntaxError'', worldOf quotedCanvas quotedId)"
  by code_simp

subsection \<open>Creating an element from the library\<close>

lemma sample_item:
  "find (\<lambda>el. itemId el = ''paragraph'') sampleLibrary
     = Some \<lparr>itemId = ''paragraph'', title = ''Paragraph'', template = ''<p>Hello</p><h1>Title</h1>''\<rparr>"
  by (simp add: sampleLibrary_def)

lemma sample_first:
  "firstElementChild (parseHTML sampleBrowser
      (template \<lparr>itemId = ''paragraph'', title = ''Paragraph'', template = ''<p>Hello</p><h1>Title</h1>''\<rparr>))
     = Some (Elem ''P'' [] [] [Text ''Hello''])"
  by (simp add: sampleBrowser_def placeholderHtml_def quot_def)

lemma sample_canvas_kept:
  "\<not> (length (querySelectorAll (HasAttr ''data-element-id'') sampleCanvas) = 0
      \<or> stringIncludes (innerHTML sampleCanvas) ''Start Building Your Layout'')"
  by code_simp

lemma sample_notes_erased:
  "length (querySelectorAll (HasAttr ''data-element-id'')
      [Elem ''DIV'' [] [] [Text ''Drop here''], Text ''typed notes'']) = 0"
  by code_simp

text \<open>
  Claim C10. When the template is found and has an element, and the container is mounted,
  \<^verbatim>\<open>createNewElement\<close> succeeds, and the container afterwards holds the new element
  appended to nothing at all when the container had no tagged element or its markup
  contained \<^verbatim>\<open>Start Building Your Layout\<close> (whatever untagged content it had is gone),
  and appended to the unchanged children otherwise. The new element is the first element of
  the parsed template, tagged and given the base styling; the rest of the template is not
  used.
\<close>

theorem createNewElement_replaces_or_appends:
  assumes "find (\<lambda>el. itemId el = elementType) elementLibrary = Some item"
    and "template item \<noteq> []"
    and "contentRef w = Some c"
    and "firstElementChild (parseHTML pf (template item)) = Some first"
  shows "fst (createNewElement pf k elementLibrary elementType w) = True
     \<and> contentRef (snd (createNewElement pf k elementLibrary elementType w)) =
         Some ((if length (querySelectorAll (HasAttr ''data-element-id'') c) = 0
                   \<or> stringIncludes (innerHTML c) ''Start Building Your Layout''
                then [] else c)
               @ [applyBuilderStyling
                    (setAttribute ''data-element-id'' (generateElementId pf k ''element'' None) first)
                    False])"
  using assms
  by (simp add: createNewElement_def saveCleanContent_def Let_def)

text \<open>
  The template of the sample item has two top-level elements; only the paragraph arrives. A
  container with an untagged block and typed text is emptied first, the sample canvas is
  kept.
\<close>

theorem createNewElement_replaces_or_appends_witness:
  "find (\<lambda>el. itemId el = ''paragraph'') sampleLibrary
     = Some \<lparr>itemId = ''paragraph'', title = ''Paragraph'', template = ''<p>Hello</p><h1>Title</h1>''\<rparr>
   \<and> parseHTML sampleBrowser ''<p>Hello</p><h1>Title</h1>''
       = [Elem ''P'' [] [] [Text ''Hello''], Elem ''H1'' [] [] [Text ''Title'']]
   \<and> contentRef (snd (createNewElement sampleBrowser 0 sampleLibrary ''paragraph''
         (libraryDrag [Elem ''DIV'' [] [] [Text ''Drop here''], Text ''typed notes''])))
       = Some [newParagraph]
   \<and> contentRef (snd (createNewElement sampleBrowser 0 sampleLibrary ''paragraph''
         (libraryDrag sampleCanvas)))
       = Some (sampleCanvas @ [newParagraph])"
proof -
  let ?item = "\<lparr>itemId = ''paragraph'', title = ''Paragraph'', template = ''<p>Hello</p><h1>Title</h1>''\<rparr>"
  have t: "template ?item \<noteq> []" by simp
  have c1: "contentRef (libraryDrag [Elem ''DIV'' [] [] [Text ''Drop here''], Text ''typed notes''])
      = Some [Elem ''DIV'' [] [] [Text ''Drop here''], Text ''typed notes'']"
    by (simp add: libraryDrag_def)
  have c2: "contentRef (libraryDrag sampleCanvas) = Some sampleCanvas"
    by (simp add: libraryDrag_def)
  have p: "parseHTML sampleBrowser ''<p>Hello</p><h1>Title</h1>''
       = [Elem ''P'' [] [] [Text ''Hello''], Elem ''H1'' [] [] [Text ''Title'']]"
    by (simp add: sampleBrowser_def placeholderHtml_def quot_def)
  have a: "contentRef (snd (createNewElement sampleBrowser 0 sampleLibrary ''paragraph''
         (libraryDrag [Elem ''DIV'' [] [] [Text ''Drop here''], Text ''typed notes''])))
       = Some [newParagraph]"
    using createNewElement_replaces_or_appends[OF sample_item t c1 sample_first, of 0]
      sample_notes_erased
    by (simp add: newParagraph_def)
  have b: "contentRef (snd (createNewElement sampleBrowser 0 sampleLibrary ''paragraph''
         (libraryDrag sampleCanvas)))
       = Some (sampleCanvas @ [newParagraph])"
    using createNewElement_replaces_or_appends[OF sample_item t c2 sample_first, of 0]
      sample_canvas_kept
    by (simp add: newParagraph_def)
  from sample_item p a b show ?thesis by (intro conjI)
qed

subsection \<open>Failure without an exception, and the exception\<close>

text \<open>
  With the container not mounted, or the element or the template not found, the two
  operations return false and leave the world as it was.
\<close>

lemma reorderElement_unmounted:
  "contentRef w = None \<Longrightarrow> reorderElement pf elementId insertBefore w = (Returns False, w)"
  by (simp add: reorderElement_def)

lemma reorderElement_not_found:
  "plainIdentifier elementId \<Longrightarrow> contentRef w = Some c \<Longrightarrow>
   querySelector (AttrEq ''data-element-id'' elementId) c = None \<Longrightarrow>
   reorderElement pf elementId insertBefore w = (Returns False, w)"
  by (simp add: reorderElement_def querySelectorById_plain)

lemma createNewElement_unmounted:
  "contentRef w = None \<Longrightarrow> createNewElement pf k elementLibrary elementType w = (False, w)"
  by (simp add: createNewElement_def split: option.splits)

lemma createNewElement_no_template:
  "find (\<lambda>el. itemId el = elementType) elementLibrary = None \<Longrightarrow>
   createNewElement pf k elementLibrary elementType w = (False, w)"
  by (simp add: createNewElement_def)

text \<open>
  Claim C8 does not hold of the code. The operations return false without a write when the
  container, the element or the template is missing (the four lemmas above), but
  \<^verbatim>\<open>reorderElement\<close> throws when the insertion point is the dragged element itself
  (a drop on its own upper half) or a nested tagged element: the element has been removed
  by then, \<^verbatim>\<open>insertBefore\<close> rejects the reference node with a \<^verbatim>\<open>NotFoundError\<close>,
  and the container is left without the element.
\<close>

theorem reorder_before_itself_throws:
  "reorderElement sampleBrowser ''a'' (Some [0]) (worldOf sampleCanvas ''a'')
     = (Throws ''NotFoundError'', (worldOf sampleCanvas ''a'')\<lparr>contentRef := Some (tl sampleCanvas)\<rparr>)
   \<and> reorderElement sampleBrowser ''para'' (Some [0, 0]) (worldOf sampleList ''para'')
     = (Throws ''NotFoundError'', (worldOf sampleList ''para'')\<lparr>contentRef := Some [hd sampleList]\<rparr>)"
  by code_simp

subsection \<open>The drag state after a drop\<close>

text \<open>
  \<^verbatim>\<open>handleDragEnd\<close> always clears the drag state, and so does every run of
  \<^verbatim>\<open>handleDrop\<close> that returns.
\<close>

lemma handleDragEnd_clears: "dragState (handleDragEnd w) = noDrag"
  by (simp add: handleDragEnd_def Let_def split: option.splits)

lemma handleDrop_returns_clears:
  "fst (handleDrop pf k elementLibrary e w) = Returns u \<Longrightarrow>
   dragState (snd (handleDrop pf k elementLibrary e w)) = noDrag"
  by (auto simp: handleDrop_def Let_def split: if_splits option.splits prod.splits completion.splits)

text \<open>
  Claim C7 does not hold of the code for \<^verbatim>\<open>handleDrop\<close>. Dropping the heading of the
  sample canvas on its own upper half makes \<^verbatim>\<open>findInsertPosition\<close> return the heading
  itself; \<^verbatim>\<open>reorderElement\<close> throws, the handler is left before its last statement, and
  \<open>draggedElementId\<close> still names the heading.
\<close>

theorem drop_on_own_upper_half_keeps_drag_state:
  "findInsertPosition sampleBrowser (dropAt 10 ''existing:a'') (worldOf sampleCanvas ''a'') = Some [0]
   \<and> fst (handleDrop sampleBrowser 0 sampleLibrary (dropAt 10 ''existing:a'') (worldOf sampleCanvas ''a''))
     = Throws ''NotFoundError''
   \<and> dragState (snd (handleDrop sampleBrowser 0 sampleLibrary (dropAt 10 ''existing:a'')
         (worldOf sampleCanvas ''a'')))
     = \<lparr>draggedElementType = None, draggedElementId = Some ''a''\<rparr>
   \<and> contentRef (snd (handleDrop sampleBrowser 0 sampleLibrary (dropAt 10 ''existing:a'')
         (worldOf sampleCanvas ''a'')))
     = Some (tl sampleCanvas)"
  by code_simp

subsection \<open>What is saved\<close>

text \<open>
  In the saved clone no tagged element keeps one of the three selection properties, and
  saving does not write to the live container.
\<close>

lemma map_of_filter_key:
  "map_of (filter (\<lambda>kv. fst kv \<noteq> p) s) q = (if q = p then None else map_of s q)"
  by (induction s) auto

lemma getStyle_removeProperty:
  "getStyle (removeProperty p n) q = (if q = p then [] else getStyle n q)"
  by (cases n) (auto simp: map_of_filter_key)

lemma matches_local: "matches sel (Elem t a s ks) = matches sel (Elem t a s' ks')"
  by (induction sel) (simp_all add: classList_def)

lemma forEachMatching_post:
  "(\<And>t a s ks. \<exists>s'. f (Elem t a s ks) = Elem t a s' ks \<and> Q (Elem t a s' ks)) \<Longrightarrow>
   n \<in> set (descendants (forEachMatching sel f ns)) \<Longrightarrow> matches sel n \<Longrightarrow> Q n"
proof (induction sel f ns arbitrary: n rule: forEachMatching.induct)
  case (1 sel f)
  then show ?case by simp
next
  case (2 sel f x ns)
  then show ?case by simp
next
  case (3 sel f t a s ks ns)
  let ?ks = "forEachMatching sel f ks"
  let ?e = "Elem t a s ?ks"
  note fq = "3.prems"(1)
  from fq[of t a s ?ks] obtain s' where s': "f ?e = Elem t a s' ?ks" "Q (Elem t a s' ?ks)"
    by blast
  have ih1: "\<And>m. m \<in> set (descendants ?ks) \<Longrightarrow> matches sel m \<Longrightarrow> Q m"
    using "3.IH"(1) fq by blast
  have ih2: "\<And>m. m \<in> set (descendants (forEachMatching sel f ns)) \<Longrightarrow> matches sel m \<Longrightarrow> Q m"
    using "3.IH"(2) fq by blast
  show ?case
  proof (cases "matches sel ?e")
    case True
    with "3.prems"(2) s'(1)
    have "n = Elem t a s' ?ks \<or> n \<in> set (descendants ?ks)
          \<or> n \<in> set (descendants (forEachMatching sel f ns))"
      by (simp del: matches.simps)
    then show ?thesis using s'(2) ih1 ih2 "3.prems"(3) by blast
  next
    case False
    with "3.prems"(2)
    have "n = ?e \<or> n \<in> set (descendants ?ks)
          \<or> n \<in> set (descendants (forEachMatching sel f ns))"
      by (simp del: matches.simps)
    then show ?thesis using False ih1 ih2 "3.prems"(3) by blast
  qed
next
  case (4 sel f x ns)
  then show ?case by simp
qed

lemma cleanedClone_strips:
  assumes "n \<in> set (descendants (cleanedClone c))" and "matches (HasAttr ''data-element-id'') n"
  shows "getStyle n ''outline'' = [] \<and> getStyle n ''outline-offset'' = []
         \<and> getStyle n ''box-shadow'' = []"
proof (rule forEachMatching_post[where Q = "\<lambda>n. getStyle n ''outline'' = []
      \<and> getStyle n ''outline-offset'' = [] \<and> getStyle n ''box-shadow'' = []"
      and sel = "HasAttr ''data-element-id''" and ns = c
      and f = "\<lambda>el. removeProperty ''box-shadow''
                   (removeProperty ''outline-offset'' (removeProperty ''outline'' el))"])
  show "matches (HasAttr ''data-element-id'') n" by (rule assms(2))
  show "n \<in> set (descendants (forEachMatching (HasAttr ''data-element-id'')
      (\<lambda>el. removeProperty ''box-shadow''
                   (removeProperty ''outline-offset'' (removeProperty ''outline'' el))) c))"
    using assms(1) by (simp add: cleanedClone_def)
  fix t a s ks
  show "\<exists>s'. removeProperty ''box-shadow''
                   (removeProperty ''outline-offset'' (removeProperty ''outline'' (Elem t a s ks)))
              = Elem t a s' ks
          \<and> (getStyle (Elem t a s' ks) ''outline'' = []
      \<and> getStyle (Elem t a s' ks) ''outline-offset'' = [] \<and> getStyle (Elem t a s' ks) ''box-shadow'' = [])"
    by (simp add: map_of_filter_key del: filter_filter)
qed

lemma saveCleanContent_live: "contentRef (saveCleanContent w) = contentRef w"
  by (simp add: saveCleanContent_def Let_def split: option.splits)

text \<open>
  Claim C2 does not hold of the code. \<^verbatim>\<open>saveCleanContent\<close> removes the three style
  properties and nothing else, so the four resize handles that selecting the figure added
  are still in the clone and in the markup handed to \<^verbatim>\<open>onContentUpdate\<close>.
\<close>

theorem saved_content_keeps_resize_handles:
  "length (querySelectorAll (HasClass ''image-resize-handle'') selectedCanvas) = 4
   \<and> length (querySelectorAll (HasClass ''image-resize-handle'') (cleanedClone selectedCanvas)) = 4
   \<and> calls (saveCleanContent (worldOf selectedCanvas ''b''))
       = [ContentUpdate (innerHTML (cleanedClone selectedCanvas))]
   \<and> stringIncludes (innerHTML (cleanedClone selectedCanvas)) ''image-resize-handle''"
  by code_simp

end
